theory Spec2Isabelle
  imports Complex_Main "HOL-Library.Sublist"
begin

section \<open>Data model (types.ts)\<close>

text \<open>
  Strings are \<^typ>\<open>string\<close>; one \<^typ>\<open>char\<close> stands for one UTF-16 code unit of
  the JavaScript string, so \<^const>\<open>length\<close> is the \<^verbatim>\<open>.length\<close> of the source.
  An optional field (\<^verbatim>\<open>imageUrl?: string\<close>) is an \<^typ>\<open>string option\<close>, with
  \<^const>\<open>None\<close> for \<^verbatim>\<open>undefined\<close>.
\<close>

datatype PlayerState = IDLE | LOADING | PLAYING | PAUSED | COMPLETED | ERROR

datatype lang = En | Hi

record LessonStep =
  index :: int
  title :: string
  narration :: string
  narration_hindi :: string
  narration_3d :: "string option"
  narration_3d_hindi :: "string option"
  diagram_scrape_query :: string
  diagram_role :: string
  overlay_description :: string
  suggested_duration_ms :: int
  imageUrl :: "string option"
  coordinates :: "(int \<times> int) option"
  sketchfab_model_id :: "string option"

record LessonPlan =
  topic :: string
  steps :: "LessonStep list"

datatype role = User | Tutor

record ChatMessage =
  mid :: string
  mrole :: role
  mtext :: string
  timestamp :: string
  isSystem :: "bool option"

text \<open>The session snapshot built by the auto-save effect of \<^verbatim>\<open>App\<close>. The field
  \<^verbatim>\<open>id\<close> is named \<open>sid\<close>; the other fields carry the prefix \<open>s_\<close>, their
  plain names being those of the \<^verbatim>\<open>App\<close> state below.\<close>

record SavedSession =
  sid :: string
  s_topic :: string
  s_lastActive :: string
  s_lessonPlan :: LessonPlan
  s_messages :: "ChatMessage list"
  s_currentStepIndex :: int

text \<open>JavaScript truthiness of an optional string: defined and not empty.\<close>

definition truthy :: "string option \<Rightarrow> bool" where
  "truthy s = (case s of None \<Rightarrow> False | Some u \<Rightarrow> u \<noteq> [])"


section \<open>Session storage (storageService.ts)\<close>

text \<open>
  What \<^verbatim>\<open>localStorage\<close> holds under the key \<^verbatim>\<open>etern_sessions\<close>: nothing (or the
  empty string), a text that \<^verbatim>\<open>JSON.parse\<close> rejects, a JSON value that is not an
  array, or an array of sessions.
\<close>

datatype stored = Absent | Unparsable | NotArray | Sessions "SavedSession list"

datatype parsed = Arr "SavedSession list" | NonArr

text \<open>\<^verbatim>\<open>step.imageUrl && step.imageUrl.startsWith('data:')\<close>\<close>

definition isDataImage :: "LessonStep \<Rightarrow> bool" where
  "isDataImage step =
     (case imageUrl step of None \<Rightarrow> False | Some u \<Rightarrow> u \<noteq> [] \<and> prefix ''data:'' u)"

definition sanitizeStep :: "LessonStep \<Rightarrow> LessonStep" where
  "sanitizeStep step = (if isDataImage step then step\<lparr>imageUrl := None\<rparr> else step)"

text \<open>
  \<^verbatim>\<open>sanitizeSession\<close> works on \<^verbatim>\<open>JSON.parse(JSON.stringify(session))\<close>, a copy
  that shares no object with its argument; on the fields of a session (strings, integers,
  booleans, arrays, absent optional fields) the round trip yields an equal value. The
  \<^verbatim>\<open>forEach\<close> that deletes fields of the copy is a \<^const>\<open>map\<close> here.
\<close>

definition sanitizeSession :: "SavedSession \<Rightarrow> SavedSession" where
  "sanitizeSession session =
     session\<lparr>s_lessonPlan :=
       (s_lessonPlan session)\<lparr>steps := map sanitizeStep (steps (s_lessonPlan session))\<rparr>\<rparr>"

definition getSessionsFromStorage :: "stored \<Rightarrow> parsed" where
  "getSessionsFromStorage st =
     (case st of
        Absent \<Rightarrow> Arr []
      | Unparsable \<Rightarrow> Arr []
      | NotArray \<Rightarrow> NonArr
      | Sessions xs \<Rightarrow> Arr xs)"

datatype save_outcome = Saved | SavedCurrentOnly | SaveFailed

text \<open>
  \<^verbatim>\<open>localStorage.setItem\<close> throws when the quota is exceeded or storage is blocked;
  \<open>fits\<close> says which lists it accepts. A value that is not an array has no
  \<^verbatim>\<open>filter\<close>, so the first \<^verbatim>\<open>try\<close> block throws there as well.
\<close>

definition saveCurrentOnly ::
  "(SavedSession list \<Rightarrow> bool) \<Rightarrow> SavedSession \<Rightarrow> stored \<Rightarrow> save_outcome \<times> stored" where
  "saveCurrentOnly fits session st =
     (let currentOnly = [sanitizeSession session]
      in if fits currentOnly then (SavedCurrentOnly, Sessions currentOnly) else (SaveFailed, st))"

text \<open>The three list operations of \<^verbatim>\<open>saveSessionToStorage\<close>: \<^verbatim>\<open>filter\<close> out the
  stored version of the session, \<^verbatim>\<open>unshift\<close> the new one, \<^verbatim>\<open>slice(0, 10)\<close>.\<close>

definition trimmedSessions :: "SavedSession \<Rightarrow> SavedSession list \<Rightarrow> SavedSession list" where
  "trimmedSessions cleanSession existing =
     (let filtered = filter (\<lambda>s. sid s \<noteq> sid cleanSession) existing
      in take 10 (cleanSession # filtered))"

definition saveSessionToStorage ::
  "(SavedSession list \<Rightarrow> bool) \<Rightarrow> SavedSession \<Rightarrow> stored \<Rightarrow> save_outcome \<times> stored" where
  "saveSessionToStorage fits session st =
     (let cleanSession = sanitizeSession session
      in case getSessionsFromStorage st of
           NonArr \<Rightarrow> saveCurrentOnly fits session st
         | Arr existing \<Rightarrow>
             (let trimmed = trimmedSessions cleanSession existing
              in if fits trimmed then (Saved, Sessions trimmed)
                 else saveCurrentOnly fits session st))"

definition deleteSessionFromStorage ::
  "(SavedSession list \<Rightarrow> bool) \<Rightarrow> string \<Rightarrow> stored \<Rightarrow> SavedSession list \<times> stored" where
  "deleteSessionFromStorage fits i st =
     (case getSessionsFromStorage st of
        NonArr \<Rightarrow> ([], st)
      | Arr existing \<Rightarrow>
          (let filtered = filter (\<lambda>s. sid s \<noteq> i) existing
           in if fits filtered then (filtered, Sessions filtered) else ([], st)))"

text \<open>The states of the storage key that the service itself can produce, starting from a
  browser that has never stored anything, under any behaviour of the quota.\<close>

inductive reachable_store :: "stored \<Rightarrow> bool" where
  rs_init: "reachable_store Absent"
| rs_save: "reachable_store st \<Longrightarrow> reachable_store (snd (saveSessionToStorage fits session st))"
| rs_delete: "reachable_store st \<Longrightarrow> reachable_store (snd (deleteSessionFromStorage fits i st))"

definition session_clean :: "SavedSession \<Rightarrow> bool" where
  "session_clean s = (\<forall>step \<in> set (steps (s_lessonPlan s)). \<not> isDataImage step)"

definition store_ok :: "stored \<Rightarrow> bool" where
  "store_ok st =
     (case st of
        Absent \<Rightarrow> True
      | Sessions xs \<Rightarrow> length xs \<le> 10 \<and> distinct (map sid xs) \<and> (\<forall>s \<in> set xs. session_clean s)
      | _ \<Rightarrow> False)"


subsection \<open>The session as objects\<close>

text \<open>
  The session handed to \<^verbatim>\<open>saveSessionToStorage\<close> is built by the auto-save effect from
  the React state: its \<^verbatim>\<open>lessonPlan\<close> is the plan object of the state, with the step
  objects the player reads. \<^verbatim>\<open>sanitizeSession\<close> deletes properties of step objects, so
  whether it leaves the live ones alone is a question about objects and not about values.
  Step objects therefore get addresses: a \<open>heap\<close> is the list of the step objects
  allocated so far, and an address is a position in it. A \<open>LiveSession\<close> is a session
  whose steps are addresses. The service writes to no other object of the graph (the
  session, the plan, the arrays, the messages), and these stay values.
\<close>

type_synonym heap = "LessonStep list"

record LiveSession =
  l_id :: string
  l_topic :: string
  l_lastActive :: string
  l_planTopic :: string
  l_steps :: "nat list"
  l_messages :: "ChatMessage list"
  l_currentStepIndex :: int

text \<open>\<^verbatim>\<open>JSON.stringify\<close> reads the objects; the text it gives is the session as a
  value.\<close>

definition stringify :: "heap \<Rightarrow> LiveSession \<Rightarrow> SavedSession" where
  "stringify h session =
     \<lparr>sid = l_id session, s_topic = l_topic session, s_lastActive = l_lastActive session,
      s_lessonPlan = \<lparr>topic = l_planTopic session, steps = map (\<lambda>a. h ! a) (l_steps session)\<rparr>,
      s_messages = l_messages session, s_currentStepIndex = l_currentStepIndex session\<rparr>"

text \<open>\<^verbatim>\<open>JSON.parse\<close> builds new objects: the steps are allocated at the end of the
  heap.\<close>

definition parse :: "SavedSession \<Rightarrow> heap \<Rightarrow> LiveSession \<times> heap" where
  "parse s h =
     (\<lparr>l_id = sid s, l_topic = s_topic s, l_lastActive = s_lastActive s,
       l_planTopic = topic (s_lessonPlan s),
       l_steps = [length h ..< length h + length (steps (s_lessonPlan s))],
       l_messages = s_messages s, l_currentStepIndex = s_currentStepIndex s\<rparr>,
      h @ steps (s_lessonPlan s))"

text \<open>The body of the \<^verbatim>\<open>forEach\<close>: \<^verbatim>\<open>delete step.imageUrl\<close> on the object at
  address \<open>a\<close>.\<close>

definition deleteDataImage :: "nat \<Rightarrow> heap \<Rightarrow> heap" where
  "deleteDataImage a h = (if isDataImage (h ! a) then h[a := (h ! a)\<lparr>imageUrl := None\<rparr>] else h)"

text \<open>\<^verbatim>\<open>sanitizeSession\<close> on objects: copy by \<^verbatim>\<open>JSON.parse(JSON.stringify(session))\<close>,
  then the \<^verbatim>\<open>forEach\<close> over the steps of the copy. It returns the copy.\<close>

definition sanitizeSessionObj :: "LiveSession \<Rightarrow> heap \<Rightarrow> LiveSession \<times> heap" where
  "sanitizeSessionObj session h =
     (case parse (stringify h session) h of
        (copy, h1) \<Rightarrow> (copy, fold deleteDataImage (l_steps copy) h1))"

text \<open>
  \<^verbatim>\<open>saveSessionToStorage\<close> on objects. \<^verbatim>\<open>JSON.stringify(trimmed)\<close> reads the clean
  copy when the list is written; \<^verbatim>\<open>filter\<close> and \<^verbatim>\<open>slice\<close> make new arrays and
  \<^verbatim>\<open>unshift\<close> writes to the one \<^verbatim>\<open>filter\<close> made. The fallback calls
  \<^verbatim>\<open>sanitizeSession(session)\<close> a second time. The result is the outcome, the storage
  and the heap.
\<close>

definition saveCurrentOnlyObj ::
  "(SavedSession list \<Rightarrow> bool) \<Rightarrow> LiveSession \<Rightarrow> heap \<Rightarrow> stored \<Rightarrow> save_outcome \<times> stored \<times> heap" where
  "saveCurrentOnlyObj fits session h st =
     (case sanitizeSessionObj session h of
        (clean, h1) \<Rightarrow>
          (let currentOnly = [stringify h1 clean]
           in if fits currentOnly then (SavedCurrentOnly, Sessions currentOnly, h1)
              else (SaveFailed, st, h1)))"

definition saveSessionToStorageObj ::
  "(SavedSession list \<Rightarrow> bool) \<Rightarrow> LiveSession \<Rightarrow> heap \<Rightarrow> stored \<Rightarrow> save_outcome \<times> stored \<times> heap" where
  "saveSessionToStorageObj fits session h st =
     (case sanitizeSessionObj session h of
        (cleanSession, h1) \<Rightarrow>
          (case getSessionsFromStorage st of
             NonArr \<Rightarrow> saveCurrentOnlyObj fits session h1 st
           | Arr existing \<Rightarrow>
               (let trimmed = trimmedSessions (stringify h1 cleanSession) existing
                in if fits trimmed then (Saved, Sessions trimmed, h1)
                   else saveCurrentOnlyObj fits session h1 st)))"

text \<open>The addresses of a live session are those of objects that exist.\<close>

definition allocated :: "heap \<Rightarrow> LiveSession \<Rightarrow> bool" where
  "allocated h session = list_all (\<lambda>a. a < length h) (l_steps session)"


section \<open>Speech synthesis gateway with its cache (ttsService.ts)\<close>

text \<open>
  \<^verbatim>\<open>String.prototype.trim\<close> strips white space and line terminators from both ends;
  among the code units below 256 these are tab, line feed, vertical tab, form feed,
  carriage return, space and the no-break space.
\<close>

definition is_ws :: "char \<Rightarrow> bool" where
  "is_ws c = (of_char c \<in> {9, 10, 11, 12, 13, 32, 160 :: nat})"

definition trim :: "string \<Rightarrow> string" where
  "trim s = rev (dropWhile is_ws (rev (dropWhile is_ws s)))"

text \<open>
  The module-level \<^verbatim>\<open>audioCache\<close> and, for counting, the texts handed to
  \<^verbatim>\<open>ai.models.generateContent\<close> in the order of the calls.
\<close>

record tts_state =
  audioCache :: "string \<rightharpoonup> string"
  gatewayCalls :: "string list"

text \<open>
  \<^verbatim>\<open>generateGeminiTTS\<close> is an \<^verbatim>\<open>async\<close> function with one suspension point, the
  gateway request. \<open>tts_begin\<close> is the part that runs when it is called: it either settles
  the promise at once (empty text, cache hit) or issues the request. \<open>tts_end\<close> is the part
  that runs when the gateway answers; the answer is \<^const>\<open>None\<close> when the request threw
  (status 429 or any other error) or carried no audio.
\<close>

datatype tts_call = Settled "string option" | InFlight

definition tts_begin :: "string \<Rightarrow> tts_state \<Rightarrow> tts_call \<times> tts_state" where
  "tts_begin text st =
     (if text = [] then (Settled None, st)
      else let cacheKey = trim text
           in case audioCache st cacheKey of
                Some a \<Rightarrow> (Settled (if a = [] then None else Some a), st)
              | None \<Rightarrow> (InFlight, st\<lparr>gatewayCalls := gatewayCalls st @ [text]\<rparr>))"

definition tts_end :: "string \<Rightarrow> string option \<Rightarrow> tts_state \<Rightarrow> string option \<times> tts_state" where
  "tts_end text response st =
     (case response of
        Some base64Audio \<Rightarrow>
          if base64Audio \<noteq> []
          then (Some base64Audio, st\<lparr>audioCache := (audioCache st)(trim text \<mapsto> base64Audio)\<rparr>)
          else (None, st)
      | None \<Rightarrow> (None, st))"

text \<open>A call that nothing interleaves with, against a gateway given as a function.\<close>

definition generateGeminiTTS ::
  "(string \<Rightarrow> string option) \<Rightarrow> string \<Rightarrow> tts_state \<Rightarrow> string option \<times> tts_state" where
  "generateGeminiTTS gateway text st =
     (case tts_begin text st of
        (Settled r, st') \<Rightarrow> (r, st')
      | (InFlight, st') \<Rightarrow> tts_end text (gateway text) st')"

text \<open>Interleaved callers: any sequence of calls and of gateway answers.\<close>

datatype tts_event = Call string | Answer string "string option"

fun tts_step :: "tts_state \<Rightarrow> tts_event \<Rightarrow> tts_state" where
  "tts_step st (Call text) = snd (tts_begin text st)"
| "tts_step st (Answer text response) = snd (tts_end text response st)"

definition tts_run :: "tts_state \<Rightarrow> tts_event list \<Rightarrow> tts_state" where
  "tts_run st es = foldl tts_step st es"

definition tts_empty :: tts_state where
  "tts_empty = \<lparr>audioCache = Map.empty, gatewayCalls = []\<rparr>"

text \<open>How often the gateway was asked for a text with the given cache key.\<close>

definition callsFor :: "string \<Rightarrow> tts_state \<Rightarrow> nat" where
  "callsFor k st = length (filter (\<lambda>t. trim t = k) (gatewayCalls st))"


text \<open>The audio of the last answer in a sequence of events that carried audio for the
  given cache key, if there is one.\<close>

fun lastAudio :: "string \<Rightarrow> tts_event list \<Rightarrow> string option" where
  "lastAudio k [] = None"
| "lastAudio k (Call u # es) = lastAudio k es"
| "lastAudio k (Answer u response # es) =
     (case lastAudio k es of
        Some b \<Rightarrow> Some b
      | None \<Rightarrow>
          (case response of
             Some b \<Rightarrow> if b \<noteq> [] \<and> trim u = k then Some b else None
           | None \<Rightarrow> None))"


section \<open>Follow-up answers and background assets (App.tsx)\<close>

record FollowUpResponse =
  answer :: string
  answer_hindi :: string
  targetStepIndex :: int
  is_off_topic :: "bool option"
  new_topic_query :: "string option"

text \<open>
  The index that \<^verbatim>\<open>handleSendMessage\<close> leaves behind when the follow-up answer has
  arrived. \<open>plan\<close> is the \<^verbatim>\<open>lessonPlan\<close> of the render in which the question was
  sent: the handler is a closure, and it reads that constant again after
  \<^verbatim>\<open>await generateFollowUp\<close>. On a context switch the handler returns before the
  bounds check.
\<close>

definition followUpIndex :: "LessonPlan \<Rightarrow> FollowUpResponse \<Rightarrow> int \<Rightarrow> int" where
  "followUpIndex plan response cur_index =
     (if is_off_topic response = Some True \<and> truthy (new_topic_query response) then cur_index
      else if targetStepIndex response \<ge> 0
              \<and> targetStepIndex response < int (length (steps plan))
           then targetStepIndex response
           else cur_index)"

text \<open>
  \<^verbatim>\<open>startBackgroundAssetGeneration\<close> asks for an image for every step without one
  (\<^verbatim>\<open>if (step.imageUrl) return\<close>); \<^verbatim>\<open>url || fallback\<close> picks the address.
\<close>

definition assetRequests :: "LessonPlan \<Rightarrow> nat list" where
  "assetRequests plan = filter (\<lambda>i. \<not> truthy (imageUrl (steps plan ! i))) [0 ..< length (steps plan)]"

definition finalUrl :: "string option \<Rightarrow> string \<Rightarrow> string" where
  "finalUrl url fallback = (case url of None \<Rightarrow> fallback | Some u \<Rightarrow> if u = [] then fallback else u)"

text \<open>
  The updater passed to \<^verbatim>\<open>setLessonPlan\<close> when the image has loaded. \<open>plan\<close> is the plan
  the request was issued under, \<open>prev\<close> the state at the time of the update. Inside the
  array the one step is replaced. At \<open>index \<ge> length\<close> the assignment
  \<^verbatim>\<open>newSteps[index] = {...newSteps[index], imageUrl}\<close> makes the JavaScript array longer:
  \<open>index - length\<close> holes, then an object that has an \<^verbatim>\<open>imageUrl\<close> and nothing else.
  That array is no \<^verbatim>\<open>LessonStep[]\<close>, so the outcome is recorded as \<open>Grown\<close> with the
  plan, the number of holes and the address.
\<close>

datatype asset_merge =
    Kept "LessonPlan option"
  | Merged LessonPlan
  | Grown LessonPlan nat string

definition mergeAsset :: "LessonPlan \<Rightarrow> nat \<Rightarrow> string \<Rightarrow> LessonPlan option \<Rightarrow> asset_merge" where
  "mergeAsset plan i url prev =
     (case prev of
        None \<Rightarrow> Kept prev
      | Some p \<Rightarrow>
          if topic p \<noteq> topic plan then Kept prev
          else if i < length (steps p)
               then Merged (p\<lparr>steps := (steps p)[i := (steps p ! i)\<lparr>imageUrl := Some url\<rparr>]\<rparr>)
               else Grown p (i - length (steps p)) url)"


section \<open>The player: App and VisualPlayer (App.tsx)\<close>

text \<open>
  \<^verbatim>\<open>App\<close> holds the lesson plan, the current step index, the play intent, the mute flag
  and the audio language; \<^verbatim>\<open>VisualPlayer\<close> holds the flow state. Both are function
  components: every render sees one consistent set of state values, and every closure made
  during a render (an effect body, \<^verbatim>\<open>handleEnded\<close>, \<^verbatim>\<open>handleNextStep\<close>, the
  \<^verbatim>\<open>prepare\<close> task) keeps the values of that render. A \<open>snapshot\<close> is that set of values.

  Objects are compared by identity in dependency arrays. The plan object carries a number
  that is fresh for every plan handed to \<^verbatim>\<open>setLessonPlan\<close>; a step object is named by the
  number of its plan and its position in \<^verbatim>\<open>steps\<close>.

  \<^verbatim>\<open>is3DMode\<close> is kept as state, as in the source, although its setter is only ever
  called with \<^verbatim>\<open>false\<close>. \<^verbatim>\<open>active3DPoint\<close> stays \<^verbatim>\<open>null\<close> for the same reason and
  is left out.
\<close>

record snapshot =
  lessonPlan :: "(nat \<times> LessonPlan) option"
  currentStepIndex :: int
  playerState :: PlayerState
  isMuted :: bool
  audioLanguage :: lang
  internalStepIndex :: int
  isPreparing :: bool
  readyAudio :: "string option"
  isLiveSession :: bool
  is3DMode :: bool

datatype step_id = NullStep | UndefinedStep | StepObj nat nat

text \<open>\<^verbatim>\<open>step={lessonPlan ? lessonPlan.steps[currentStepIndex] : null}\<close>: outside the array
  the read gives \<^verbatim>\<open>undefined\<close>.\<close>

definition inRange :: "LessonPlan \<Rightarrow> int \<Rightarrow> bool" where
  "inRange p i = (0 \<le> i \<and> i < int (length (steps p)))"

definition stepId :: "snapshot \<Rightarrow> step_id" where
  "stepId r =
     (case lessonPlan r of
        None \<Rightarrow> NullStep
      | Some (pid, p) \<Rightarrow>
          if inRange p (currentStepIndex r) then StepObj pid (nat (currentStepIndex r))
          else UndefinedStep)"

definition stepOf :: "snapshot \<Rightarrow> LessonStep option" where
  "stepOf r =
     (case lessonPlan r of
        None \<Rightarrow> None
      | Some (pid, p) \<Rightarrow>
          if inRange p (currentStepIndex r) then Some (steps p ! nat (currentStepIndex r))
          else None)"

text \<open>The two default texts of the 3D mode. The Hindi one is Devanagari text of 34 code
  units, none of them a \<^typ>\<open>char\<close>; only its length and its being a fixed text matter.\<close>

definition default3d :: string where
  "default3d = ''Rotate the model to explore details.''"

definition default3dHindi :: string where
  "default3dHindi = replicate 34 (CHR ''#'')"

definition orElse :: "string option \<Rightarrow> string \<Rightarrow> string" where
  "orElse s d = (case s of None \<Rightarrow> d | Some u \<Rightarrow> if u = [] then d else u)"

definition currentText :: "snapshot \<Rightarrow> string" where
  "currentText r =
     (case stepOf r of
        None \<Rightarrow> []
      | Some step \<Rightarrow>
          if is3DMode r
          then (let en3d = orElse (narration_3d step) default3d;
                    hi3d = orElse (narration_3d_hindi step) default3dHindi
                in if audioLanguage r = Hi then hi3d else en3d)
          else if audioLanguage r = Hi then narration_hindi step else narration step)"

subsection \<open>Asynchronous work in flight\<close>

text \<open>
  A \<^verbatim>\<open>prepare\<close> task, with what its closure holds and the \<^verbatim>\<open>await\<close> it is suspended
  at. \<open>isCancelled\<close> is the variable of that name, set by the cleanup of the effect.
\<close>

datatype stage = AwaitImage | AwaitTTS tts_call | AwaitSettle | Finished

record task =
  t_step :: step_id
  t_imageUrl :: "string option"
  t_is3DMode :: bool
  t_isMuted :: bool
  t_text :: string
  isCancelled :: bool
  t_stage :: stage

text \<open>
  The kinds of \<^verbatim>\<open>setTimeout\<close>: the 500 ms settle delay of a task, the timed silence of
  a muted step (calls \<^verbatim>\<open>handleEnded\<close>), the 1000 ms grace delay inside
  \<^verbatim>\<open>handleEnded\<close>, and the 4000 ms delay of the look-ahead prefetch with the text to
  synthesize. The source clears the last one in the cleanup of its effect and none of the
  others. The silence and grace timers carry the snapshot of the render whose effect made
  them.
\<close>

datatype timer_kind =
    SettleTimer nat
  | SilentTimer snapshot
  | GraceTimer snapshot
  | PrefetchTimer string

record timer =
  due :: rat
  kind :: timer_kind

datatype source_status = SourcePlaying | SourceStopped | SourceEnded

record source =
  src_data :: string
  src_onended :: snapshot
  src_status :: source_status

datatype utterance_status = Queued | Cancelled | Done

record utterance =
  u_text :: string
  u_onend :: snapshot
  u_status :: utterance_status

datatype ctx_state = NoContext | Suspended | Running

text \<open>
  The world: the React state now (\<open>cur\<close>), the state of the last render (\<open>rendered\<close>,
  \<^const>\<open>None\<close> before the first), the registered cleanups, the tasks, the timers with a
  clock in milliseconds, the refs of the audio subsystem, and the synthesis service.
  \<open>decodable\<close> says for which audio data \<^verbatim>\<open>decodePCM\<close> succeeds; \<open>ctx\<close> is
  \<^verbatim>\<open>audioContextRef.current\<close> with its \<^verbatim>\<open>state\<close>; \<open>hasSynth\<close> is whether
  \<^verbatim>\<open>window.speechSynthesis\<close> exists. \<open>pendingPcm\<close> are the calls of \<^verbatim>\<open>playPCM\<close>
  suspended at \<^verbatim>\<open>await ctx.resume()\<close>. \<open>pendingFollowUps\<close> are the plans captured by
  calls of \<^verbatim>\<open>handleSendMessage\<close> that wait for their answer, \<open>pendingPrefetch\<close> the
  texts of the prefetch requests that wait for the gateway.
\<close>

record world =
  cur :: snapshot
  rendered :: "snapshot option"
  nextPlanId :: nat
  cleanupPrepare :: "nat option"
  cleanupPlayback :: bool
  cleanupPrefetch :: bool
  tasks :: "task list"
  timers :: "timer list"
  now :: rat
  audioSourceRef :: "nat option"
  sources :: "source list"
  utterances :: "utterance list"
  pendingPcm :: "(string \<times> snapshot) list"
  pendingFollowUps :: "LessonPlan list"
  pendingPrefetch :: "string list"
  ctx :: ctx_state
  hasSynth :: bool
  decodable :: "string \<Rightarrow> bool"
  tts :: tts_state

definition setState :: "(snapshot \<Rightarrow> snapshot) \<Rightarrow> world \<Rightarrow> world" where
  "setState f w = w\<lparr>cur := f (cur w)\<rparr>"

definition setTimeout :: "timer_kind \<Rightarrow> rat \<Rightarrow> world \<Rightarrow> world" where
  "setTimeout k delay w = w\<lparr>timers := timers w @ [\<lparr>due = now w + delay, kind = k\<rparr>]\<rparr>"

definition updTask :: "nat \<Rightarrow> (task \<Rightarrow> task) \<Rightarrow> world \<Rightarrow> world" where
  "updTask i f w = w\<lparr>tasks := (tasks w)[i := f (tasks w ! i)]\<rparr>"

subsection \<open>Audio output\<close>

text \<open>\<^verbatim>\<open>stopAudio\<close>: cancel the speech queue, stop and release the buffer source that
  \<^verbatim>\<open>audioSourceRef\<close> points to.\<close>

definition cancelUtterance :: "utterance \<Rightarrow> utterance" where
  "cancelUtterance u = (if u_status u = Queued then u\<lparr>u_status := Cancelled\<rparr> else u)"

definition stopSource :: "source \<Rightarrow> source" where
  "stopSource s = (if src_status s = SourcePlaying then s\<lparr>src_status := SourceStopped\<rparr> else s)"

definition stopAudio :: "world \<Rightarrow> world" where
  "stopAudio w =
     (let w1 = (if hasSynth w then w\<lparr>utterances := map cancelUtterance (utterances w)\<rparr> else w)
      in case audioSourceRef w1 of
           None \<Rightarrow> w1
         | Some k \<Rightarrow> w1\<lparr>sources := (sources w1)[k := stopSource (sources w1 ! k)],
                        audioSourceRef := None\<rparr>)"

text \<open>\<^verbatim>\<open>handleEnded\<close> of the render \<open>r\<close>: start the grace delay.\<close>

definition handleEnded :: "snapshot \<Rightarrow> world \<Rightarrow> world" where
  "handleEnded r w = setTimeout (GraceTimer r) 1000 w"

definition fallbackToWebSpeech :: "string \<Rightarrow> snapshot \<Rightarrow> world \<Rightarrow> world" where
  "fallbackToWebSpeech text r w =
     (if \<not> hasSynth w then handleEnded r w
      else w\<lparr>utterances := utterances w @ [\<lparr>u_text = text, u_onend = r, u_status = Queued\<rparr>]\<rparr>)"

text \<open>The part of \<^verbatim>\<open>playPCM\<close> after \<^verbatim>\<open>await ctx.resume()\<close>: decode, create the source,
  store it in \<^verbatim>\<open>audioSourceRef\<close>, start it; on a decoding error speak the text.\<close>

definition startSource :: "string \<Rightarrow> snapshot \<Rightarrow> world \<Rightarrow> world" where
  "startSource base64Data r w =
     (if decodable w base64Data
      then w\<lparr>sources := sources w @ [\<lparr>src_data = base64Data, src_onended = r, src_status = SourcePlaying\<rparr>],
             audioSourceRef := Some (length (sources w))\<rparr>
      else fallbackToWebSpeech (currentText r) r w)"

definition playPCM :: "string \<Rightarrow> snapshot \<Rightarrow> world \<Rightarrow> world" where
  "playPCM base64Data r w =
     (case ctx w of
        NoContext \<Rightarrow> handleEnded r w
      | Suspended \<Rightarrow> w\<lparr>pendingPcm := pendingPcm w @ [(base64Data, r)]\<rparr>
      | Running \<Rightarrow> startSource base64Data r w)"

subsection \<open>Advancing\<close>

text \<open>\<^verbatim>\<open>handleNextStep\<close> of the render \<open>r\<close>. The tests read the captured values; the
  updater \<^verbatim>\<open>prev => prev + 1\<close> reads the state of the moment.\<close>

definition handleNextStep :: "snapshot \<Rightarrow> world \<Rightarrow> world" where
  "handleNextStep r w =
     (case lessonPlan r of
        None \<Rightarrow> w
      | Some (pid, p) \<Rightarrow>
          if currentStepIndex r < int (length (steps p)) - 1
          then (let w1 = setState (\<lambda>s. s\<lparr>currentStepIndex := currentStepIndex s + 1\<rparr>) w
                in if playerState r \<noteq> PLAYING
                   then setState (\<lambda>s. s\<lparr>playerState := PLAYING\<rparr>) w1 else w1)
          else setState (\<lambda>s. s\<lparr>playerState := COMPLETED\<rparr>) w)"

text \<open>The body of the grace timer in \<^verbatim>\<open>handleEnded\<close>.\<close>

definition graceElapsed :: "snapshot \<Rightarrow> world \<Rightarrow> world" where
  "graceElapsed r w =
     (if playerState r = PLAYING \<and> \<not> is3DMode r \<and> \<not> isLiveSession r
         \<and> currentStepIndex r = internalStepIndex r
      then handleNextStep r w else w)"

subsection \<open>The preparation task\<close>

text \<open>After the audio is known: \<^verbatim>\<open>if (!isCancelled) { setReadyAudio(audioData); await
  500 ms; ... }\<close>.\<close>

definition applyAudio :: "nat \<Rightarrow> string option \<Rightarrow> world \<Rightarrow> world" where
  "applyAudio i audioData w =
     (if \<not> isCancelled (tasks w ! i)
      then setTimeout (SettleTimer i) 500
             (updTask i (\<lambda>t. t\<lparr>t_stage := AwaitSettle\<rparr>)
               (setState (\<lambda>s. s\<lparr>readyAudio := audioData\<rparr>) w))
      else updTask i (\<lambda>t. t\<lparr>t_stage := Finished\<rparr>) w)"

text \<open>After the image wait: \<^verbatim>\<open>if (!isMuted) audioData = await generateGeminiTTS(currentText)\<close>.
  The flag \<^verbatim>\<open>isCancelled\<close> is not read here.\<close>

definition afterImage :: "nat \<Rightarrow> world \<Rightarrow> world" where
  "afterImage i w =
     (let t = tasks w ! i
      in if \<not> t_isMuted t
         then (case tts_begin (t_text t) (tts w) of
                 (c, tts') \<Rightarrow> updTask i (\<lambda>t. t\<lparr>t_stage := AwaitTTS c\<rparr>) (w\<lparr>tts := tts'\<rparr>))
         else applyAudio i None w)"

definition startPrepare :: "snapshot \<Rightarrow> LessonStep \<Rightarrow> world \<Rightarrow> world" where
  "startPrepare r step w =
     (let i = length (tasks w);
          t = \<lparr>t_step = stepId r, t_imageUrl = imageUrl step, t_is3DMode = is3DMode r,
               t_isMuted = isMuted r, t_text = currentText r, isCancelled = False,
               t_stage = AwaitImage\<rparr>;
          w1 = w\<lparr>tasks := tasks w @ [t], cleanupPrepare := Some i\<rparr>
      in if \<not> is3DMode r \<and> truthy (imageUrl step) then w1 else afterImage i w1)"

text \<open>The settle delay is over: \<^verbatim>\<open>if (!isCancelled) setIsPreparing(false)\<close>. The timer
  resumes the task at the \<^verbatim>\<open>await\<close> it belongs to, and the task is finished after it.\<close>

definition settleElapsed :: "nat \<Rightarrow> world \<Rightarrow> world" where
  "settleElapsed i w =
     (if i < length (tasks w) \<and> t_stage (tasks w ! i) = AwaitSettle
      then (let w1 = updTask i (\<lambda>t. t\<lparr>t_stage := Finished\<rparr>) w
            in if \<not> isCancelled (tasks w ! i)
               then setState (\<lambda>s. s\<lparr>isPreparing := False\<rparr>) w1 else w1)
      else w)"

subsection \<open>The effects of VisualPlayer\<close>

text \<open>The dependency arrays, in the order of the source. \<^verbatim>\<open>stopAudio\<close> is a constant
  callback. \<^verbatim>\<open>onNextStep\<close> is \<^verbatim>\<open>handleNextStep\<close>, a \<^verbatim>\<open>useCallback\<close> over the plan
  object, the current index and the play intent.\<close>

definition depsIndex :: "snapshot \<Rightarrow> int \<times> step_id \<times> bool \<times> int" where
  "depsIndex r = (currentStepIndex r, stepId r, isLiveSession r, internalStepIndex r)"

definition depsPrepare :: "snapshot \<Rightarrow> bool \<times> step_id \<times> bool \<times> string \<times> bool \<times> bool" where
  "depsPrepare r = (isPreparing r, stepId r, is3DMode r, currentText r, isMuted r, isLiveSession r)"

definition onNextStepId :: "snapshot \<Rightarrow> nat option \<times> int \<times> PlayerState" where
  "onNextStepId r = (map_option fst (lessonPlan r), currentStepIndex r, playerState r)"

definition depsPlayback ::
  "snapshot \<Rightarrow> bool \<times> PlayerState \<times> string option \<times> bool \<times> string \<times> bool \<times> int \<times> int \<times> bool
                 \<times> (nat option \<times> int \<times> PlayerState)" where
  "depsPlayback r =
     (isPreparing r, playerState r, readyAudio r, isMuted r, currentText r, isLiveSession r,
      internalStepIndex r, currentStepIndex r, is3DMode r, onNextStepId r)"

definition depsReset3D :: "snapshot \<Rightarrow> int" where
  "depsReset3D r = currentStepIndex r"

definition depsPrefetch :: "snapshot \<Rightarrow> int \<times> nat option \<times> lang" where
  "depsPrefetch r = (currentStepIndex r, map_option fst (lessonPlan r), audioLanguage r)"

definition changed :: "(snapshot \<Rightarrow> 'a) \<Rightarrow> snapshot option \<Rightarrow> snapshot \<Rightarrow> bool" where
  "changed deps prev r = (case prev of None \<Rightarrow> True | Some l \<Rightarrow> deps l \<noteq> deps r)"

text \<open>The index-change effect (lines 664 to 673).\<close>

definition effectIndexChange :: "snapshot \<Rightarrow> world \<Rightarrow> world" where
  "effectIndexChange r w =
     (if stepOf r = None \<or> isLiveSession r then w
      else if currentStepIndex r \<noteq> internalStepIndex r
           then setState (\<lambda>s. s\<lparr>isPreparing := True,
                                 internalStepIndex := currentStepIndex r,
                                 readyAudio := None\<rparr>) (stopAudio w)
           else w)"

text \<open>The prepare effect (lines 675 to 711) and its cleanup
  \<^verbatim>\<open>() => { isCancelled = true; }\<close>.\<close>

definition effectPrepare :: "snapshot \<Rightarrow> world \<Rightarrow> world" where
  "effectPrepare r w =
     (case stepOf r of
        None \<Rightarrow> w
      | Some step \<Rightarrow> if \<not> isPreparing r \<or> isLiveSession r then w else startPrepare r step w)"

definition runCleanupPrepare :: "world \<Rightarrow> world" where
  "runCleanupPrepare w =
     (case cleanupPrepare w of
        None \<Rightarrow> w
      | Some i \<Rightarrow> (updTask i (\<lambda>t. t\<lparr>isCancelled := True\<rparr>) w)\<lparr>cleanupPrepare := None\<rparr>)"

text \<open>The playback effect (lines 713 to 738) and its cleanup \<^verbatim>\<open>() => { stopAudio(); }\<close>.
  The timed silence lasts \<^verbatim>\<open>Math.max(3000, (currentText.length / 15) * 1000)\<close>
  milliseconds, taken here as a rational number.\<close>

definition silentDuration :: "string \<Rightarrow> rat" where
  "silentDuration text = max 3000 ((of_nat (length text) / 15) * 1000)"

definition effectPlayback :: "snapshot \<Rightarrow> world \<Rightarrow> world" where
  "effectPlayback r w =
     (if isPreparing r \<or> isLiveSession r then w
      else if internalStepIndex r \<noteq> currentStepIndex r then w
      else if playerState r \<noteq> PLAYING then w
      else (let w1 = stopAudio w;
                w2 = (if truthy (readyAudio r) \<and> \<not> isMuted r
                      then playPCM (the (readyAudio r)) r w1
                      else if \<not> isMuted r \<and> \<not> truthy (readyAudio r)
                           then fallbackToWebSpeech (currentText r) r w1
                           else setTimeout (SilentTimer r) (silentDuration (currentText r)) w1)
            in w2\<lparr>cleanupPlayback := True\<rparr>))"

definition runCleanupPlayback :: "world \<Rightarrow> world" where
  "runCleanupPlayback w =
     (if cleanupPlayback w then (stopAudio w)\<lparr>cleanupPlayback := False\<rparr> else w)"

text \<open>The effect of lines 803 to 806.\<close>

definition effectReset3D :: "snapshot \<Rightarrow> world \<Rightarrow> world" where
  "effectReset3D r w = setState (\<lambda>s. s\<lparr>is3DMode := False\<rparr>) w"

text \<open>The look-ahead prefetch effect of \<^verbatim>\<open>App\<close> (lines 54 to 70) and its cleanup
  \<^verbatim>\<open>() => clearTimeout(timer)\<close>. It does not read the mute flag. For an index below
  \<open>-1\<close> the read of \<^verbatim>\<open>nextStep.narration\<close> throws in the source; no handler produces
  such an index, and the model sets no timer there.\<close>

definition isPrefetch :: "timer \<Rightarrow> bool" where
  "isPrefetch t = (case kind t of PrefetchTimer x \<Rightarrow> True | _ \<Rightarrow> False)"

definition effectPrefetch :: "snapshot \<Rightarrow> world \<Rightarrow> world" where
  "effectPrefetch r w =
     (case lessonPlan r of
        None \<Rightarrow> w
      | Some (pid, p) \<Rightarrow>
          if currentStepIndex r \<ge> int (length (steps p)) - 1 \<or> currentStepIndex r + 1 < 0 then w
          else (let nextStep = steps p ! nat (currentStepIndex r + 1);
                    textToPreload = (if audioLanguage r = Hi then narration_hindi nextStep
                                     else narration nextStep)
                in (setTimeout (PrefetchTimer textToPreload) 4000 w)\<lparr>cleanupPrefetch := True\<rparr>))"

definition runCleanupPrefetch :: "world \<Rightarrow> world" where
  "runCleanupPrefetch w =
     (if cleanupPrefetch w
      then w\<lparr>timers := filter (\<lambda>t. \<not> isPrefetch t) (timers w), cleanupPrefetch := False\<rparr>
      else w)"

text \<open>The prefetch timer has fired: \<^verbatim>\<open>generateGeminiTTS(textToPreload)\<close>, result
  ignored.\<close>

definition prefetchElapsed :: "string \<Rightarrow> world \<Rightarrow> world" where
  "prefetchElapsed text w =
     (case tts_begin text (tts w) of
        (Settled a, tts') \<Rightarrow> w\<lparr>tts := tts'\<rparr>
      | (InFlight, tts') \<Rightarrow> w\<lparr>tts := tts', pendingPrefetch := pendingPrefetch w @ [text]\<rparr>)"

subsection \<open>Rendering\<close>

text \<open>
  One render with its effect phase: React compares each dependency array with that of the
  previous render, runs the cleanups of all effects that are due, then their bodies, those
  of the child \<^verbatim>\<open>VisualPlayer\<close> before those of \<^verbatim>\<open>App\<close>, in the order of declaration.
  Effect bodies see the snapshot \<open>r\<close> of this render; their state updates go to \<open>cur\<close>
  and are seen by the next render. The auto-save effect of \<^verbatim>\<open>App\<close> only writes to the
  session storage and is not part of the player.
\<close>

definition render_pass :: "world \<Rightarrow> world" where
  "render_pass w =
     (let r = cur w;
          prev = rendered w;
          w0 = w\<lparr>rendered := Some r\<rparr>;
          w1 = (if changed depsPrepare prev r then runCleanupPrepare w0 else w0);
          w2 = (if changed depsPlayback prev r then runCleanupPlayback w1 else w1);
          w2' = (if changed depsPrefetch prev r then runCleanupPrefetch w2 else w2);
          w3 = (if changed depsIndex prev r then effectIndexChange r w2' else w2');
          w4 = (if changed depsPrepare prev r then effectPrepare r w3 else w3);
          w5 = (if changed depsPlayback prev r then effectPlayback r w4 else w4);
          w6 = (if changed depsReset3D prev r then effectReset3D r w5 else w5)
      in if changed depsPrefetch prev r then effectPrefetch r w6 else w6)"

text \<open>A world is quiescent when the state is the one last rendered. React renders again
  as long as an effect has changed the state; the bound is its limit on nested updates.\<close>

definition quiescent :: "world \<Rightarrow> bool" where
  "quiescent w = (rendered w = Some (cur w))"

fun settle :: "nat \<Rightarrow> world \<Rightarrow> world" where
  "settle 0 w = w"
| "settle (Suc n) w = (if quiescent w then w else settle n (render_pass w))"

definition commit :: "world \<Rightarrow> world" where
  "commit w = settle 50 w"

subsection \<open>Events\<close>

text \<open>
  What can happen to the player: the handlers of \<^verbatim>\<open>App\<close> and \<^verbatim>\<open>VisualPlayer\<close>, and the
  callbacks of the environment. Every event is one JavaScript task; the state updates it
  makes are batched and followed by \<open>commit\<close> before the next event. A selected session
  brings a plan parsed from storage and the index stored with it. The handlers also append
  chat messages and speak the chat answer, which writes nothing the player reads. The merge
  of a background asset, which puts a new plan object with one new step object into the
  state, is not an event of this machine; \<open>mergeAsset\<close> above is its model.
\<close>

datatype event =
    LessonRequested
  | TopicSwitch
  | LessonGenerated LessonPlan
  | LessonFailed
  | SelectSession LessonPlan nat
  | NewChat
  | Play
  | Pause
  | Restart
  | PrevStep
  | FollowUpAsked
  | FollowUpAnswered nat FollowUpResponse
  | ToggleMute
  | SetAudioLanguage lang
  | ToggleLiveSession
  | LiveSessionError
  | ImageResolved nat
  | TtsResolved nat "string option"
  | PrefetchAnswered nat "string option"
  | TimerFires
  | Elapse rat
  | ContextResumed
  | SourceEnds nat
  | UtteranceEnds nat

text \<open>\<^verbatim>\<open>setLessonPlan\<close> with a new plan object.\<close>

definition setLessonPlan :: "LessonPlan \<Rightarrow> world \<Rightarrow> world" where
  "setLessonPlan p w =
     (setState (\<lambda>s. s\<lparr>lessonPlan := Some (nextPlanId w, p)\<rparr>) w)\<lparr>nextPlanId := Suc (nextPlanId w)\<rparr>"

text \<open>\<^verbatim>\<open>toggleLiveSession\<close> (lines 787 to 801); \<^verbatim>\<open>onPause\<close> is \<^verbatim>\<open>handlePause\<close>.\<close>

definition toggleLiveSession :: "world \<Rightarrow> world" where
  "toggleLiveSession w =
     (if isLiveSession (cur w)
      then setState (\<lambda>s. s\<lparr>isLiveSession := False\<rparr>) w
      else setState (\<lambda>s. s\<lparr>isLiveSession := True\<rparr>)
             (stopAudio (setState (\<lambda>s. s\<lparr>playerState := PAUSED\<rparr>) w)))"

text \<open>The timer that is due first; among equals the one set first.\<close>

fun earliest :: "timer list \<Rightarrow> nat" where
  "earliest [] = 0"
| "earliest [t] = 0"
| "earliest (t # ts) = (let k = earliest ts in if due (ts ! k) < due t then Suc k else 0)"

definition dropAt :: "nat \<Rightarrow> 'a list \<Rightarrow> 'a list" where
  "dropAt k xs = take k xs @ drop (Suc k) xs"

definition runTimer :: "timer_kind \<Rightarrow> world \<Rightarrow> world" where
  "runTimer k w =
     (case k of
        SettleTimer i \<Rightarrow> settleElapsed i w
      | SilentTimer r \<Rightarrow> handleEnded r w
      | GraceTimer r \<Rightarrow> graceElapsed r w
      | PrefetchTimer text \<Rightarrow> prefetchElapsed text w)"

definition timerFires :: "world \<Rightarrow> world" where
  "timerFires w =
     (if timers w = [] then w
      else (let k = earliest (timers w); t = timers w ! k
            in runTimer (kind t) (w\<lparr>timers := dropAt k (timers w), now := max (now w) (due t)\<rparr>)))"

text \<open>A task resumes when its image wait is over (load, error, or the 5 s bound), or
  when \<^verbatim>\<open>generateGeminiTTS\<close> settles.\<close>

definition imageResolved :: "nat \<Rightarrow> world \<Rightarrow> world" where
  "imageResolved i w =
     (if i < length (tasks w) \<and> t_stage (tasks w ! i) = AwaitImage then afterImage i w else w)"

definition ttsResolved :: "nat \<Rightarrow> string option \<Rightarrow> world \<Rightarrow> world" where
  "ttsResolved i response w =
     (if i < length (tasks w)
      then (case t_stage (tasks w ! i) of
              AwaitTTS (Settled audioData) \<Rightarrow> applyAudio i audioData w
            | AwaitTTS InFlight \<Rightarrow>
                (case tts_end (t_text (tasks w ! i)) response (tts w) of
                   (audioData, tts') \<Rightarrow> applyAudio i audioData (w\<lparr>tts := tts'\<rparr>))
            | _ \<Rightarrow> w)
      else w)"

definition prefetchAnswered :: "nat \<Rightarrow> string option \<Rightarrow> world \<Rightarrow> world" where
  "prefetchAnswered k response w =
     (if k < length (pendingPrefetch w)
      then w\<lparr>tts := snd (tts_end (pendingPrefetch w ! k) response (tts w)),
             pendingPrefetch := dropAt k (pendingPrefetch w)\<rparr>
      else w)"

text \<open>\<^verbatim>\<open>ctx.resume()\<close> settles: every suspended \<^verbatim>\<open>playPCM\<close> goes on, in the order of the
  calls.\<close>

definition contextResumed :: "world \<Rightarrow> world" where
  "contextResumed w =
     (if ctx w = Suspended
      then foldl (\<lambda>v (d, r). startSource d r v) (w\<lparr>ctx := Running, pendingPcm := []\<rparr>) (pendingPcm w)
      else w)"

text \<open>The \<^verbatim>\<open>ended\<close> event of a buffer source, and \<^verbatim>\<open>end\<close> or \<^verbatim>\<open>error\<close> of an
  utterance. The platform raises them for a source that was stopped and for an utterance
  that was cancelled, too.\<close>

definition sourceEnds :: "nat \<Rightarrow> world \<Rightarrow> world" where
  "sourceEnds k w =
     (if k < length (sources w) \<and> src_status (sources w ! k) \<noteq> SourceEnded
      then handleEnded (src_onended (sources w ! k))
             (w\<lparr>sources := (sources w)[k := (sources w ! k)\<lparr>src_status := SourceEnded\<rparr>]\<rparr>)
      else w)"

definition utteranceEnds :: "nat \<Rightarrow> world \<Rightarrow> world" where
  "utteranceEnds k w =
     (if k < length (utterances w) \<and> u_status (utterances w ! k) \<noteq> Done
      then handleEnded (u_onend (utterances w ! k))
             (w\<lparr>utterances := (utterances w)[k := (utterances w ! k)\<lparr>u_status := Done\<rparr>]\<rparr>)
      else w)"

text \<open>The handlers. \<^verbatim>\<open>FollowUpAsked\<close> is \<^verbatim>\<open>handleSendMessage\<close> up to
  \<^verbatim>\<open>await generateFollowUp\<close>, \<^verbatim>\<open>FollowUpAnswered k\<close> what it does for the \<open>k\<close>-th
  question once the answer is there.\<close>

definition handle :: "event \<Rightarrow> world \<Rightarrow> world" where
  "handle e w =
     (case e of
        LessonRequested \<Rightarrow> setState (\<lambda>s. s\<lparr>playerState := LOADING\<rparr>) w
      | TopicSwitch \<Rightarrow> setState (\<lambda>s. s\<lparr>lessonPlan := None, playerState := LOADING\<rparr>) w
      | LessonGenerated p \<Rightarrow>
          setState (\<lambda>s. s\<lparr>currentStepIndex := 0, playerState := PLAYING\<rparr>) (setLessonPlan p w)
      | LessonFailed \<Rightarrow> setState (\<lambda>s. s\<lparr>playerState := IDLE\<rparr>) w
      | SelectSession p i \<Rightarrow>
          setState (\<lambda>s. s\<lparr>currentStepIndex := int i, playerState := PAUSED\<rparr>) (setLessonPlan p w)
      | NewChat \<Rightarrow> setState (\<lambda>s. s\<lparr>lessonPlan := None, currentStepIndex := 0, playerState := IDLE\<rparr>) w
      | Play \<Rightarrow> setState (\<lambda>s. s\<lparr>playerState := PLAYING\<rparr>) w
      | Pause \<Rightarrow> setState (\<lambda>s. s\<lparr>playerState := PAUSED\<rparr>) w
      | Restart \<Rightarrow> setState (\<lambda>s. s\<lparr>currentStepIndex := 0, playerState := PLAYING\<rparr>) w
      | PrevStep \<Rightarrow>
          (if currentStepIndex (cur w) > 0
           then setState (\<lambda>s. s\<lparr>currentStepIndex := currentStepIndex s - 1, playerState := PLAYING\<rparr>) w
           else w)
      | FollowUpAsked \<Rightarrow>
          (case lessonPlan (cur w) of
             None \<Rightarrow> w
           | Some (pid, p) \<Rightarrow>
               (setState (\<lambda>s. s\<lparr>playerState := PAUSED\<rparr>) w)\<lparr>pendingFollowUps := pendingFollowUps w @ [p]\<rparr>)
      | FollowUpAnswered k response \<Rightarrow>
          (if k < length (pendingFollowUps w)
           then setState (\<lambda>s. s\<lparr>currentStepIndex :=
                                   followUpIndex (pendingFollowUps w ! k) response (currentStepIndex s)\<rparr>) w
           else w)
      | ToggleMute \<Rightarrow> setState (\<lambda>s. s\<lparr>isMuted := \<not> isMuted s\<rparr>) w
      | SetAudioLanguage l \<Rightarrow> setState (\<lambda>s. s\<lparr>audioLanguage := l\<rparr>) w
      | ToggleLiveSession \<Rightarrow> toggleLiveSession w
      | LiveSessionError \<Rightarrow> setState (\<lambda>s. s\<lparr>isLiveSession := False\<rparr>) w
      | ImageResolved i \<Rightarrow> imageResolved i w
      | TtsResolved i response \<Rightarrow> ttsResolved i response w
      | PrefetchAnswered k response \<Rightarrow> prefetchAnswered k response w
      | TimerFires \<Rightarrow> timerFires w
      | Elapse d \<Rightarrow>
          (if 0 \<le> d \<and> (\<forall>t \<in> set (timers w). now w + d \<le> due t) then w\<lparr>now := now w + d\<rparr> else w)
      | ContextResumed \<Rightarrow> contextResumed w
      | SourceEnds k \<Rightarrow> sourceEnds k w
      | UtteranceEnds k \<Rightarrow> utteranceEnds k w)"

definition fire :: "world \<Rightarrow> event \<Rightarrow> world" where
  "fire w e = commit (handle e w)"

definition run :: "world \<Rightarrow> event list \<Rightarrow> world" where
  "run w es = foldl fire w es"

text \<open>The page has just loaded: no plan, nothing prepared, the component mounted.\<close>

definition initialState :: snapshot where
  "initialState =
     \<lparr>lessonPlan = None, currentStepIndex = 0, playerState = IDLE, isMuted = False,
      audioLanguage = En, internalStepIndex = - 1, isPreparing = False, readyAudio = None,
      isLiveSession = False, is3DMode = False\<rparr>"

definition mounted :: "ctx_state \<Rightarrow> bool \<Rightarrow> (string \<Rightarrow> bool) \<Rightarrow> world" where
  "mounted c synth dec =
     commit \<lparr>cur = initialState, rendered = None, nextPlanId = 0, cleanupPrepare = None,
             cleanupPlayback = False, cleanupPrefetch = False, tasks = [], timers = [], now = 0,
             audioSourceRef = None, sources = [], utterances = [], pendingPcm = [],
             pendingFollowUps = [], pendingPrefetch = [], ctx = c, hasSynth = synth, decodable = dec, tts = tts_empty\<rparr>"

text \<open>The worlds the player can be in.\<close>

inductive reachable :: "world \<Rightarrow> bool" where
  r_mounted: "reachable (mounted c synth dec)"
| r_fire: "reachable w \<Longrightarrow> reachable (fire w e)"

subsection \<open>Observing runs\<close>

text \<open>The worlds a run goes through, the first one included.\<close>

fun trace :: "world \<Rightarrow> event list \<Rightarrow> world list" where
  "trace w [] = [w]"
| "trace w (e # es) = w # trace (fire w e) es"

text \<open>The time left on the pending timed silences.\<close>

definition silences :: "world \<Rightarrow> rat list" where
  "silences w =
     map (\<lambda>t. due t - now w)
       (filter (\<lambda>t. case kind t of SilentTimer r \<Rightarrow> True | _ \<Rightarrow> False) (timers w))"

definition observe :: "world \<Rightarrow> rat \<times> int \<times> PlayerState \<times> bool \<times> rat list" where
  "observe w =
     (now w, currentStepIndex (cur w), playerState (cur w), isPreparing (cur w), silences w)"

text \<open>The sequencer state: what the index-change effect and a preparation task write.\<close>

definition sequencer :: "world \<Rightarrow> int \<times> bool \<times> string option" where
  "sequencer w = (internalStepIndex (cur w), isPreparing (cur w), readyAudio (cur w))"

text \<open>A task is live while its closure can still write to the sequencer state.\<close>

definition live :: "task \<Rightarrow> bool" where
  "live t = (\<not> isCancelled t \<and> t_stage t \<noteq> Finished)"

subsection \<open>Example lessons\<close>

definition exampleStep :: "int \<Rightarrow> string \<Rightarrow> string option \<Rightarrow> LessonStep" where
  "exampleStep i text img =
     \<lparr>index = i, title = ''Step'', narration = text, narration_hindi = text,
      narration_3d = None, narration_3d_hindi = None, diagram_scrape_query = ''query'',
      diagram_role = ''role'', overlay_description = ''label'', suggested_duration_ms = 0,
      imageUrl = img, coordinates = None, sketchfab_model_id = None\<rparr>"

text \<open>Three steps with narrations of 30, 60 and 90 characters and no image yet.\<close>

definition plan3 :: LessonPlan where
  "plan3 =
     \<lparr>topic = ''atoms'',
      steps = [exampleStep 0 (replicate 30 CHR ''a'') None,
               exampleStep 1 (replicate 60 CHR ''b'') None,
               exampleStep 2 (replicate 90 CHR ''c'') None]\<rparr>"


definition plan5 :: LessonPlan where
  "plan5 = \<lparr>topic = ''engines'', steps = map (\<lambda>i. exampleStep (int i) ''text'' None) [0 ..< 5]\<rparr>"

definition plan2 :: LessonPlan where
  "plan2 = \<lparr>topic = ''leaves'', steps = map (\<lambda>i. exampleStep (int i) ''text'' None) [0 ..< 2]\<rparr>"

definition jumpTo :: "int \<Rightarrow> FollowUpResponse" where
  "jumpTo i = \<lparr>answer = ''See this step.'', answer_hindi = ''See this step.'',
               targetStepIndex = i, is_off_topic = None, new_topic_query = None\<rparr>"

subsection \<open>Example browsers and observers\<close>

definition anyAudio :: "string \<Rightarrow> bool" where
  "anyAudio d = True"

text \<open>A page whose audio context runs, and one whose audio context is still suspended, as
  the autoplay policy leaves a context that was created before any user gesture.\<close>

definition page :: world where
  "page = mounted Running True anyAudio"

definition pageSuspended :: world where
  "pageSuspended = mounted Suspended True anyAudio"

definition anySize :: "SavedSession list \<Rightarrow> bool" where
  "anySize xs = True"

definition noAudio :: "string \<Rightarrow> string option" where
  "noAudio text = None"




definition observePlan :: "world \<Rightarrow> int \<times> nat option" where
  "observePlan w =
     (currentStepIndex (cur w), map_option (\<lambda>(pid, p). length (steps p)) (lessonPlan (cur w)))"

subsection \<open>What a render leaves behind\<close>

text \<open>
  The React state after one render with its effects, as a function of the state of the
  previous render and the state rendered now. Three effects write state while they run:
  the index-change effect, the prepare effect when its task reaches
  \<^verbatim>\<open>setReadyAudio(audioData)\<close> without an \<^verbatim>\<open>await\<close> (no image to wait for, muted), and
  the effect that leaves the 3D mode. That \<open>render_pass\<close> computes this state is
  lemma \<open>cur_render_pass\<close>.
\<close>

definition indexChanges :: "snapshot option \<Rightarrow> snapshot \<Rightarrow> bool" where
  "indexChanges prev r =
     (changed depsIndex prev r \<and> stepOf r \<noteq> None \<and> \<not> isLiveSession r
      \<and> currentStepIndex r \<noteq> internalStepIndex r)"

definition preparesAtOnce :: "snapshot option \<Rightarrow> snapshot \<Rightarrow> bool" where
  "preparesAtOnce prev r =
     (changed depsPrepare prev r \<and> isPreparing r \<and> \<not> isLiveSession r \<and> isMuted r
      \<and> (case stepOf r of None \<Rightarrow> False
          | Some step \<Rightarrow> is3DMode r \<or> \<not> truthy (imageUrl step)))"

definition nextState :: "snapshot option \<Rightarrow> snapshot \<Rightarrow> snapshot" where
  "nextState prev r =
     (let s1 = (if indexChanges prev r
                then r\<lparr>isPreparing := True, internalStepIndex := currentStepIndex r,
                       readyAudio := None\<rparr>
                else r);
          s2 = (if preparesAtOnce prev r then s1\<lparr>readyAudio := None\<rparr> else s1)
      in if changed depsReset3D prev r then s2\<lparr>is3DMode := False\<rparr> else s2)"

text \<open>
  The invariant of the preparation tasks. \<open>prepares l\<close> is the condition under which the
  prepare effect of a render \<open>l\<close> starts a task. A live task is the one whose cancellation
  the effect has registered; the registered task is not cancelled and was started from the
  last render's step, mute flag and text; and while the last render asks for a
  preparation, a task is registered.
\<close>

definition prepares :: "snapshot \<Rightarrow> bool" where
  "prepares l = (stepOf l \<noteq> None \<and> isPreparing l \<and> \<not> isLiveSession l)"

definition startedFrom :: "snapshot \<Rightarrow> task \<Rightarrow> bool" where
  "startedFrom l t =
     (prepares l \<and> t_step t = stepId l \<and> t_isMuted t = isMuted l \<and> t_text t = currentText l)"

definition tasks_ok :: "world \<Rightarrow> bool" where
  "tasks_ok w =
     ((\<forall>i < length (tasks w). live (tasks w ! i) \<longrightarrow> cleanupPrepare w = Some i)
      \<and> (\<forall>i. cleanupPrepare w = Some i \<longrightarrow>
            i < length (tasks w) \<and> \<not> isCancelled (tasks w ! i)
            \<and> (\<exists>l. rendered w = Some l \<and> startedFrom l (tasks w ! i)))
      \<and> (\<forall>l. rendered w = Some l \<and> prepares l \<longrightarrow> cleanupPrepare w \<noteq> None))"

text \<open>How a task may change: what its closure captured stays, a cancelled task stays
  cancelled, and a task that is not live does not become live again.\<close>

definition task_le :: "task \<Rightarrow> task \<Rightarrow> bool" where
  "task_le t t' =
     (t_step t' = t_step t \<and> t_isMuted t' = t_isMuted t \<and> t_text t' = t_text t
      \<and> (isCancelled t \<longrightarrow> isCancelled t') \<and> (live t' \<longrightarrow> live t))"

definition tasks_grow :: "world \<Rightarrow> world \<Rightarrow> bool" where
  "tasks_grow w w' =
     (length (tasks w) \<le> length (tasks w')
      \<and> (\<forall>j < length (tasks w). task_le (tasks w ! j) (tasks w' ! j)))"

definition same_tasks :: "world \<Rightarrow> world \<Rightarrow> bool" where
  "same_tasks w w' =
     (length (tasks w') = length (tasks w) \<and> cleanupPrepare w' = cleanupPrepare w
      \<and> rendered w' = rendered w
      \<and> (\<forall>j < length (tasks w). task_le (tasks w ! j) (tasks w' ! j)
                                  \<and> isCancelled (tasks w' ! j) = isCancelled (tasks w ! j)))"

subsection \<open>The audio output as a whole\<close>



subsection \<open>Example worlds\<close>



text \<open>The index has gone from 0 to 1 while the audio of step 0 was still being
  synthesized: task 0 is the stale one, task 1 the one for the current step.\<close>

definition jumpedWorld :: world where
  "jumpedWorld =
     run page [LessonGenerated plan3, FollowUpAsked, FollowUpAnswered 0 (jumpTo 1), FollowUpAsked]"


text \<open>The same jump in the muted lesson: the settle delay of task 0 is still running when
  the index moves on, and its timer is the next one to fire.\<close>

definition mutedJumpedWorld :: world where
  "mutedJumpedWorld =
     run page [ToggleMute, LessonGenerated plan3, FollowUpAsked, FollowUpAnswered 0 (jumpTo 1),
               FollowUpAsked]"





subsection \<open>Example sessions\<close>

text \<open>Sessions with pairwise different ids: session \<open>n\<close> has an id of \<open>n + 1\<close> letters and
  one step, whose image is a base64 image.\<close>

definition numberedSession :: "nat \<Rightarrow> SavedSession" where
  "numberedSession n =
     \<lparr>sid = replicate (Suc n) CHR ''s'', s_topic = ''atoms'',
      s_lastActive = ''2025-01-01T00:00:00.000Z'',
      s_lessonPlan = \<lparr>topic = ''atoms'',
                      steps = [exampleStep 0 ''a'' (Some ''data:image/png;base64,AAAA'')]\<rparr>,
      s_messages = [], s_currentStepIndex = 0\<rparr>"

definition saveAll :: "SavedSession list \<Rightarrow> stored \<Rightarrow> stored" where
  "saveAll ss st = foldl (\<lambda>st s. snd (saveSessionToStorage anySize s st)) st ss"

text \<open>The storage after the sessions 0 to 9 have been saved in this order: ten sessions,
  session 9 first.\<close>

definition fullStore :: stored where
  "fullStore = saveAll (map numberedSession [0 ..< 10]) Absent"

text \<open>Two live step objects, the first with a base64 image, and two live sessions over
  them: one with the id of session 3, which is in the full store, and one with an id
  that is not.\<close>

definition exampleHeap :: heap where
  "exampleHeap = [exampleStep 0 ''a'' (Some ''data:image/png;base64,AAAA''),
                  exampleStep 1 ''b'' (Some ''https://img/1.png'')]"

definition liveSession :: "nat \<Rightarrow> LiveSession" where
  "liveSession n =
     \<lparr>l_id = replicate (Suc n) CHR ''s'', l_topic = ''atoms'',
      l_lastActive = ''2025-01-02T00:00:00.000Z'', l_planTopic = ''atoms'',
      l_steps = [0, 1], l_messages = [], l_currentStepIndex = 1\<rparr>"

text \<open>The ids in the storage, in the order of the stored list.\<close>

definition sessionIds :: "stored \<Rightarrow> string list" where
  "sessionIds st = (case getSessionsFromStorage st of Arr xs \<Rightarrow> map sid xs | NonArr \<Rightarrow> [])"

definition ids :: "nat list \<Rightarrow> string list" where
  "ids ns = map (\<lambda>n. sid (numberedSession n)) ns"


section \<open>Verification: session storage\<close>

lemma sanitizeStep_clean: "\<not> isDataImage (sanitizeStep step)"
  by (simp add: sanitizeStep_def isDataImage_def)

lemma sanitizeSession_clean: "session_clean (sanitizeSession s)"
  by (simp add: session_clean_def sanitizeSession_def sanitizeStep_clean)

lemma sanitizeSession_sid: "sid (sanitizeSession s) = sid s"
  by (simp add: sanitizeSession_def)

subsection \<open>The copy and the live objects\<close>

lemma sanitizeStep_idem: "sanitizeStep (sanitizeStep step) = sanitizeStep step"
  by (simp add: sanitizeStep_def isDataImage_def)

lemma deleteDataImage_update: "deleteDataImage a h = h[a := sanitizeStep (h ! a)]"
  by (simp add: deleteDataImage_def sanitizeStep_def)

lemma fold_deleteDataImage_length: "length (fold deleteDataImage as h) = length h"
  by (induction as arbitrary: h) (simp_all add: deleteDataImage_update)

lemma fold_deleteDataImage_nth:
  "a < length h \<Longrightarrow>
     fold deleteDataImage as h ! a = (if a \<in> set as then sanitizeStep (h ! a) else h ! a)"
proof (induction as arbitrary: h)
  case Nil
  show ?case by simp
next
  case (Cons b bs)
  have l: "a < length (deleteDataImage b h)"
    using Cons.prems by (simp add: deleteDataImage_update)
  have n: "deleteDataImage b h ! a = (if a = b then sanitizeStep (h ! a) else h ! a)"
    using Cons.prems by (simp add: deleteDataImage_update nth_list_update)
  have "fold deleteDataImage bs (deleteDataImage b h) ! a
          = (if a \<in> set bs then sanitizeStep (if a = b then sanitizeStep (h ! a) else h ! a)
             else (if a = b then sanitizeStep (h ! a) else h ! a))"
    using Cons.IH [OF l] unfolding n .
  then show ?case by (simp add: sanitizeStep_idem)
qed

lemma fold_deleteDataImage_copy:
  "fold deleteDataImage [length h ..< length h + length xs] (h @ xs) = h @ map sanitizeStep xs"
proof (rule nth_equalityI)
  show "length (fold deleteDataImage [length h ..< length h + length xs] (h @ xs))
          = length (h @ map sanitizeStep xs)"
    by (simp add: fold_deleteDataImage_length)
next
  fix i
  assume "i < length (fold deleteDataImage [length h ..< length h + length xs] (h @ xs))"
  then have i: "i < length (h @ xs)" by (simp add: fold_deleteDataImage_length)
  show "fold deleteDataImage [length h ..< length h + length xs] (h @ xs) ! i
          = (h @ map sanitizeStep xs) ! i"
    using i by (simp add: fold_deleteDataImage_nth [OF i] nth_append)
qed

lemma sanitizeSessionObj_eq:
  "sanitizeSessionObj session h =
     (fst (parse (stringify h session) h),
      h @ map sanitizeStep (map (\<lambda>a. h ! a) (l_steps session)))"
  using fold_deleteDataImage_copy [of h "map (\<lambda>a. h ! a) (l_steps session)"]
  by (simp add: sanitizeSessionObj_def parse_def stringify_def)

lemma map_nth_upt_append: "map (\<lambda>a. (h @ xs) ! a) [length h ..< length h + length xs] = xs"
  by (rule nth_equalityI) simp_all

lemma sanitizeSessionObj_value:
  assumes "sanitizeSessionObj session h = (copy, h1)"
  shows "stringify h1 copy = sanitizeSession (stringify h session)" and "take (length h) h1 = h"
proof -
  let ?xs = "map sanitizeStep (map (\<lambda>a. h ! a) (l_steps session))"
  from assms have c: "copy = fst (parse (stringify h session) h)" and h1: "h1 = h @ ?xs"
    by (simp_all add: sanitizeSessionObj_eq)
  have "map (\<lambda>a. (h @ ?xs) ! a) [length h ..< length h + length ?xs] = ?xs"
    by (rule map_nth_upt_append)
  then show "stringify h1 copy = sanitizeSession (stringify h session)"
    by (simp add: c h1 parse_def stringify_def sanitizeSession_def)
  show "take (length h) h1 = h" by (simp add: h1)
qed

lemma take_take_heap:
  assumes "take (length h) h1 = h" and "take (length h1) h2 = h1"
  shows "take (length h) h2 = h"
proof -
  have "length h \<le> length h1" using assms(1) by (metis length_take min.cobounded1)
  then have "take (length h) h2 = take (length h) (take (length h1) h2)" by (simp add: min_def)
  then show ?thesis using assms by simp
qed

lemma stringify_take:
  assumes "allocated h session" and "take (length h) h' = h"
  shows "stringify h' session = stringify h session"
proof -
  have "h' ! a = h ! a" if "a \<in> set (l_steps session)" for a
  proof -
    from that assms(1) have "a < length h" by (simp add: allocated_def list_all_iff)
    then show ?thesis using assms(2) by (metis nth_take)
  qed
  then show ?thesis by (simp add: stringify_def)
qed

lemma saveCurrentOnlyObj_value:
  assumes "saveCurrentOnlyObj fits session h st = (out, st', h')"
    and "stringify h session = s"
  shows "saveCurrentOnly fits s st = (out, st')" and "take (length h) h' = h"
proof -
  obtain c h1 where o: "sanitizeSessionObj session h = (c, h1)"
    by (cases "sanitizeSessionObj session h")
  note v = sanitizeSessionObj_value [OF o]
  from assms(1) show "saveCurrentOnly fits s st = (out, st')"
    by (auto simp: saveCurrentOnlyObj_def saveCurrentOnly_def o v(1) assms(2) Let_def
        split: if_splits)
  from assms(1) have "h' = h1"
    by (auto simp: saveCurrentOnlyObj_def o Let_def split: if_splits)
  then show "take (length h) h' = h" using v(2) by simp
qed

text \<open>Saving the objects stores what saving their value stores, and changes no object that
  existed before.\<close>

lemma saveSessionToStorageObj_value:
  assumes "saveSessionToStorageObj fits session h st = (out, st', h')"
    and "allocated h session"
  shows "saveSessionToStorage fits (stringify h session) st = (out, st')"
    and "take (length h) h' = h"
proof -
  obtain c h1 where o: "sanitizeSessionObj session h = (c, h1)"
    by (cases "sanitizeSessionObj session h")
  note v = sanitizeSessionObj_value [OF o]
  have s: "stringify h1 session = stringify h session"
    using assms(2) v(2) by (rule stringify_take)
  have fallback: "saveCurrentOnly fits (stringify h session) st = (out, st') \<and> take (length h) h' = h"
    if f: "saveCurrentOnlyObj fits session h1 st = (out, st', h')"
    using saveCurrentOnlyObj_value [OF f s] take_take_heap [OF v(2)] by simp
  have "saveSessionToStorage fits (stringify h session) st = (out, st') \<and> take (length h) h' = h"
  proof (cases "getSessionsFromStorage st")
    case NonArr
    with assms(1) have "saveCurrentOnlyObj fits session h1 st = (out, st', h')"
      by (simp add: saveSessionToStorageObj_def o)
    from fallback [OF this] show ?thesis
      by (simp add: saveSessionToStorage_def NonArr)
  next
    case (Arr existing)
    show ?thesis
    proof (cases "fits (trimmedSessions (sanitizeSession (stringify h session)) existing)")
      case True
      with assms(1) have "out = Saved"
        and "st' = Sessions (trimmedSessions (sanitizeSession (stringify h session)) existing)"
        and "h' = h1"
        by (simp_all add: saveSessionToStorageObj_def o Arr v(1) Let_def)
      then show ?thesis using True v(2) by (simp add: saveSessionToStorage_def Arr Let_def)
    next
      case False
      with assms(1) have "saveCurrentOnlyObj fits session h1 st = (out, st', h')"
        by (simp add: saveSessionToStorageObj_def o Arr v(1) Let_def)
      from fallback [OF this] show ?thesis
        using False by (simp add: saveSessionToStorage_def Arr Let_def)
    qed
  qed
  then show "saveSessionToStorage fits (stringify h session) st = (out, st')"
    and "take (length h) h' = h" by simp_all
qed

subsection \<open>The stored list\<close>

lemma trimmed_length: "length (trimmedSessions c xs) \<le> 10"
  by (simp add: trimmedSessions_def)

lemma trimmed_hd: "trimmedSessions c xs \<noteq> [] \<and> hd (trimmedSessions c xs) = c"
  by (simp add: trimmedSessions_def)

lemma trimmed_distinct:
  assumes "distinct (map sid xs)"
  shows "distinct (map sid (trimmedSessions c xs))"
proof -
  have "distinct (map sid (c # filter (\<lambda>s. sid s \<noteq> sid c) xs))"
    using assms by (auto simp: distinct_map_filter)
  then have "distinct (take 10 (map sid (c # filter (\<lambda>s. sid s \<noteq> sid c) xs)))"
    by (rule distinct_take)
  then show ?thesis
    by (simp only: trimmedSessions_def Let_def take_map)
qed

lemma trimmed_clean:
  assumes "\<forall>x \<in> set xs. session_clean x" and "session_clean c"
  shows "\<forall>x \<in> set (trimmedSessions c xs). session_clean x"
proof
  fix x assume "x \<in> set (trimmedSessions c xs)"
  then have "x \<in> set (c # filter (\<lambda>s. sid s \<noteq> sid c) xs)"
    unfolding trimmedSessions_def Let_def by (rule in_set_takeD)
  then show "session_clean x" using assms by auto
qed

lemma store_ok_Absent: "store_ok Absent"
  by (simp add: store_ok_def)

lemma store_ok_Sessions:
  "store_ok (Sessions xs) =
     (length xs \<le> 10 \<and> distinct (map sid xs) \<and> (\<forall>s \<in> set xs. session_clean s))"
  by (simp add: store_ok_def)

lemma existing_ok:
  assumes "store_ok st" and "getSessionsFromStorage st = Arr xs"
  shows "distinct (map sid xs)" and "\<forall>x \<in> set xs. session_clean x" and "length xs \<le> 10"
  using assms by (cases st; simp add: store_ok_def getSessionsFromStorage_def; fail)+

lemma store_ok_NonArr: "store_ok st \<Longrightarrow> getSessionsFromStorage st \<noteq> NonArr"
  by (cases st) (auto simp: store_ok_def getSessionsFromStorage_def)

lemma store_ok_trimmed:
  assumes "store_ok st" and "getSessionsFromStorage st = Arr xs"
  shows "store_ok (Sessions (trimmedSessions (sanitizeSession s) xs))"
  unfolding store_ok_Sessions
  using trimmed_length trimmed_distinct [OF existing_ok(1) [OF assms]]
    trimmed_clean [OF existing_ok(2) [OF assms] sanitizeSession_clean]
  by blast

lemma store_ok_single: "store_ok (Sessions [sanitizeSession s])"
  by (simp add: store_ok_Sessions sanitizeSession_clean)

lemma saveCurrentOnly_cases:
  "saveCurrentOnly fits s st = (SavedCurrentOnly, Sessions [sanitizeSession s])
   \<or> saveCurrentOnly fits s st = (SaveFailed, st)"
  by (simp add: saveCurrentOnly_def Let_def)

lemma save_cases:
  assumes "getSessionsFromStorage st = Arr xs"
  shows "saveSessionToStorage fits s st = (Saved, Sessions (trimmedSessions (sanitizeSession s) xs))
       \<or> saveSessionToStorage fits s st = (SavedCurrentOnly, Sessions [sanitizeSession s])
       \<or> saveSessionToStorage fits s st = (SaveFailed, st)"
  using saveCurrentOnly_cases [of fits s st]
  by (auto simp: saveSessionToStorage_def assms Let_def)

lemma store_ok_save:
  assumes ok: "store_ok st"
  shows "store_ok (snd (saveSessionToStorage fits s st))"
proof -
  obtain xs where a: "getSessionsFromStorage st = Arr xs"
    using store_ok_NonArr [OF ok] by (cases "getSessionsFromStorage st") auto
  from save_cases [OF a, of fits s] show ?thesis
    using store_ok_trimmed [OF ok a, of s] store_ok_single [of s] ok by auto
qed

lemma store_ok_delete:
  assumes ok: "store_ok st"
  shows "store_ok (snd (deleteSessionFromStorage fits i st))"
proof -
  obtain xs where a: "getSessionsFromStorage st = Arr xs"
    using store_ok_NonArr [OF ok] by (cases "getSessionsFromStorage st") auto
  have "length (filter (\<lambda>s. sid s \<noteq> i) xs) \<le> 10"
    using existing_ok(3) [OF ok a] by (meson le_trans length_filter_le)
  then have "store_ok (Sessions (filter (\<lambda>s. sid s \<noteq> i) xs))"
    using existing_ok(1,2) [OF ok a] by (simp add: store_ok_Sessions distinct_map_filter)
  then show ?thesis
    using ok by (simp add: deleteSessionFromStorage_def a Let_def)
qed

lemma reachable_store_ok: "reachable_store st \<Longrightarrow> store_ok st"
  by (induction rule: reachable_store.induct)
     (simp_all add: store_ok_Absent store_ok_save store_ok_delete)

lemma reachable_saveAll: "reachable_store st \<Longrightarrow> reachable_store (saveAll ss st)"
  unfolding saveAll_def by (induction ss arbitrary: st) (simp_all add: rs_save)

lemma reachable_fullStore: "reachable_store fullStore"
  unfolding fullStore_def by (rule reachable_saveAll) (rule rs_init)

text \<open>
  Claim C10. Whatever the service has written to the storage key so far, a save that
  writes (by the first attempt or by the fallback that stores only the current session)
  leaves a list of at most 10 sessions with pairwise different ids, headed by the
  sanitized version of the session just saved, in which no step of any stored lesson has
  an \<^verbatim>\<open>imageUrl\<close> that starts with \<^verbatim>\<open>data:\<close>. The save changes no step object
  that existed before it, so the live session reads afterwards as it read before; the
  heap only grows by the copies. What is stored is what \<open>saveSessionToStorage\<close> stores
  for the value of the live session.
\<close>

theorem save_session_invariant:
  assumes "reachable_store st"
    and "allocated h session"
    and "saveSessionToStorageObj fits session h st = (out, st', h')"
    and "out \<noteq> SaveFailed"
  shows "(\<exists>xs. st' = Sessions xs \<and> length xs \<le> 10 \<and> distinct (map sid xs)
            \<and> xs \<noteq> [] \<and> hd xs = sanitizeSession (stringify h session)
            \<and> sid (hd xs) = l_id session
            \<and> (\<forall>x \<in> set xs. \<forall>step \<in> set (steps (s_lessonPlan x)). \<not> isDataImage step))
       \<and> take (length h) h' = h
       \<and> stringify h' session = stringify h session
       \<and> saveSessionToStorage fits (stringify h session) st = (out, st')"
proof -
  let ?s = "stringify h session"
  note v = saveSessionToStorageObj_value [OF assms(3,2)]
  have ok: "store_ok st" using assms(1) by (rule reachable_store_ok)
  obtain ys where a: "getSessionsFromStorage st = Arr ys"
    using store_ok_NonArr [OF ok] by (cases "getSessionsFromStorage st") auto
  have ok': "store_ok st'"
    using store_ok_save [OF ok, of fits ?s] v(1) by simp
  from save_cases [OF a, of fits ?s] v(1) assms(4)
  have "st' = Sessions (trimmedSessions (sanitizeSession ?s) ys)
        \<or> st' = Sessions [sanitizeSession ?s]"
    by auto
  then obtain xs where xs: "st' = Sessions xs" "xs \<noteq> []" "hd xs = sanitizeSession ?s"
    using trimmed_hd [of "sanitizeSession ?s" ys] by auto
  from ok' xs(1) have "length xs \<le> 10" "distinct (map sid xs)" "\<forall>x \<in> set xs. session_clean x"
    by (simp_all add: store_ok_Sessions)
  moreover have "sid (hd xs) = l_id session"
    by (simp add: xs(3) sanitizeSession_sid stringify_def)
  ultimately have 1: "\<exists>xs. st' = Sessions xs \<and> length xs \<le> 10 \<and> distinct (map sid xs)
            \<and> xs \<noteq> [] \<and> hd xs = sanitizeSession ?s \<and> sid (hd xs) = l_id session
            \<and> (\<forall>x \<in> set xs. \<forall>step \<in> set (steps (s_lessonPlan x)). \<not> isDataImage step)"
    using xs by (auto simp: session_clean_def)
  have 2: "stringify h' session = ?s" using assms(2) v(2) by (rule stringify_take)
  from 1 2 v show ?thesis by blast
qed

theorem save_session_invariant_witness:
  "sessionIds fullStore = ids [9, 8, 7, 6, 5, 4, 3, 2, 1, 0]
   \<and> l_id (liveSession 3) = sid (numberedSession 3)
   \<and> fst (saveSessionToStorageObj anySize (liveSession 3) exampleHeap fullStore) = Saved
   \<and> sessionIds (fst (snd (saveSessionToStorageObj anySize (liveSession 3) exampleHeap fullStore)))
       = ids [3, 9, 8, 7, 6, 5, 4, 2, 1, 0]
   \<and> sessionIds (fst (snd (saveSessionToStorageObj anySize (liveSession 10) exampleHeap fullStore)))
       = ids [10, 9, 8, 7, 6, 5, 4, 3, 2, 1]
   \<and> snd (snd (saveSessionToStorageObj anySize (liveSession 3) exampleHeap fullStore))
       = exampleHeap @ [exampleStep 0 ''a'' None, exampleStep 1 ''b'' (Some ''https://img/1.png'')]
   \<and> (\<exists>xs. fst (snd (saveSessionToStorageObj anySize (liveSession 3) exampleHeap fullStore))
              = Sessions xs
          \<and> length xs \<le> 10 \<and> distinct (map sid xs) \<and> xs \<noteq> []
          \<and> hd xs = sanitizeSession (stringify exampleHeap (liveSession 3))
          \<and> sid (hd xs) = l_id (liveSession 3)
          \<and> (\<forall>x \<in> set xs. \<forall>step \<in> set (steps (s_lessonPlan x)). \<not> isDataImage step))
   \<and> (\<exists>xs. fst (snd (saveSessionToStorageObj anySize (liveSession 10) exampleHeap fullStore))
              = Sessions xs
          \<and> length xs \<le> 10 \<and> distinct (map sid xs) \<and> xs \<noteq> []
          \<and> hd xs = sanitizeSession (stringify exampleHeap (liveSession 10)))
   \<and> take (length exampleHeap)
        (snd (snd (saveSessionToStorageObj anySize (liveSession 3) exampleHeap fullStore)))
       = exampleHeap
   \<and> stringify (snd (snd (saveSessionToStorageObj anySize (liveSession 3) exampleHeap fullStore)))
        (liveSession 3)
       = stringify exampleHeap (liveSession 3)
   \<and> map imageUrl (steps (s_lessonPlan (stringify exampleHeap (liveSession 3))))
       = [Some ''data:image/png;base64,AAAA'', Some ''https://img/1.png'']
   \<and> map imageUrl (steps (s_lessonPlan (sanitizeSession (stringify exampleHeap (liveSession 3)))))
       = [None, Some ''https://img/1.png'']"
proof -
  let ?r3 = "saveSessionToStorageObj anySize (liveSession 3) exampleHeap fullStore"
  let ?r10 = "saveSessionToStorageObj anySize (liveSession 10) exampleHeap fullStore"
  have a: "allocated exampleHeap (liveSession n)" for n
    by (simp add: allocated_def liveSession_def exampleHeap_def)
  have c: "sessionIds fullStore = ids [9, 8, 7, 6, 5, 4, 3, 2, 1, 0]"
    "l_id (liveSession 3) = sid (numberedSession 3)"
    "fst ?r3 = Saved" "fst ?r10 = Saved"
    "sessionIds (fst (snd ?r3)) = ids [3, 9, 8, 7, 6, 5, 4, 2, 1, 0]"
    "sessionIds (fst (snd ?r10)) = ids [10, 9, 8, 7, 6, 5, 4, 3, 2, 1]"
    "snd (snd ?r3)
       = exampleHeap @ [exampleStep 0 ''a'' None, exampleStep 1 ''b'' (Some ''https://img/1.png'')]"
    "map imageUrl (steps (s_lessonPlan (stringify exampleHeap (liveSession 3))))
       = [Some ''data:image/png;base64,AAAA'', Some ''https://img/1.png'']"
    "map imageUrl (steps (s_lessonPlan (sanitizeSession (stringify exampleHeap (liveSession 3)))))
       = [None, Some ''https://img/1.png'']"
    by code_simp+
  have e3: "?r3 = (fst ?r3, fst (snd ?r3), snd (snd ?r3))"
    and e10: "?r10 = (fst ?r10, fst (snd ?r10), snd (snd ?r10))" by simp_all
  have n3: "fst ?r3 \<noteq> SaveFailed" and n10: "fst ?r10 \<noteq> SaveFailed" by (simp_all add: c)
  note t3 = save_session_invariant [OF reachable_fullStore a e3 n3]
  note t10 = save_session_invariant [OF reachable_fullStore a e10 n10]
  from t10 have x10: "\<exists>xs. fst (snd ?r10) = Sessions xs
          \<and> length xs \<le> 10 \<and> distinct (map sid xs) \<and> xs \<noteq> []
          \<and> hd xs = sanitizeSession (stringify exampleHeap (liveSession 10))"
    by blast
  from c t3 x10 show ?thesis by blast
qed


section \<open>Verification: the synthesis cache\<close>

lemma tts_begin_cache: "audioCache (snd (tts_begin t st)) = audioCache st"
  by (simp add: tts_begin_def Let_def split: option.split)

lemma tts_end_cache_keeps:
  "audioCache st k \<noteq> None \<Longrightarrow> audioCache (snd (tts_end t response st)) k \<noteq> None"
  by (simp add: tts_end_def split: option.split)

lemma tts_end_calls: "gatewayCalls (snd (tts_end t response st)) = gatewayCalls st"
  by (simp add: tts_end_def split: option.split)

lemma tts_begin_calls_cached:
  "audioCache st k \<noteq> None \<Longrightarrow> callsFor k (snd (tts_begin t st)) = callsFor k st"
  by (auto simp: tts_begin_def callsFor_def Let_def split: option.split)

lemma tts_step_cached:
  assumes "audioCache st k \<noteq> None"
  shows "audioCache (tts_step st e) k \<noteq> None \<and> callsFor k (tts_step st e) = callsFor k st"
proof (cases e)
  case (Call t)
  then show ?thesis using assms by (simp add: tts_begin_cache tts_begin_calls_cached)
next
  case (Answer t response)
  then show ?thesis using assms by (simp add: tts_end_cache_keeps tts_end_calls callsFor_def)
qed

lemma tts_run_Cons: "tts_run st (e # es) = tts_run (tts_step st e) es"
  by (simp add: tts_run_def)

lemma tts_run_cached:
  "audioCache st k \<noteq> None \<Longrightarrow> callsFor k (tts_run st es) = callsFor k st"
proof (induction es arbitrary: st)
  case Nil
  then show ?case by (simp add: tts_run_def)
next
  case (Cons e es)
  from tts_step_cached [OF Cons.prems, of e]
  have c: "audioCache (tts_step st e) k \<noteq> None" and n: "callsFor k (tts_step st e) = callsFor k st"
    by simp_all
  show ?case using Cons.IH [OF c] n by (simp add: tts_run_Cons)
qed

lemma tts_end_caches:
  "a \<noteq> [] \<Longrightarrow> audioCache (snd (tts_end t (Some a) st)) (trim t) = Some a"
  by (simp add: tts_end_def)

lemma tts_step_cache:
  "audioCache (tts_step st e) k =
     (case lastAudio k [e] of Some b \<Rightarrow> Some b | None \<Rightarrow> audioCache st k)"
  by (cases e) (auto simp: tts_begin_cache tts_end_def split: option.split)

text \<open>The cache after a run: for every key the audio of the last answer that carried
  audio for it, and what it held before if there was none.\<close>

lemma tts_run_cache:
  "audioCache (tts_run st es) k =
     (case lastAudio k es of Some b \<Rightarrow> Some b | None \<Rightarrow> audioCache st k)"
proof (induction es arbitrary: st)
  case Nil
  show ?case by (simp add: tts_run_def)
next
  case (Cons e es)
  show ?case
    unfolding tts_run_Cons Cons.IH tts_step_cache
    by (cases e) (simp_all split: option.split)
qed

lemma lastAudio_nonempty: "lastAudio k es = Some b \<Longrightarrow> b \<noteq> []"
  by (induction k es rule: lastAudio.induct) (auto split: option.splits if_splits)

lemma cache_hit:
  assumes "audioCache st (trim t) = Some c" and "c \<noteq> []" and "t \<noteq> []"
  shows "generateGeminiTTS gateway t st = (Some c, st)"
  using assms by (simp add: generateGeminiTTS_def tts_begin_def Let_def)

lemma cache_miss:
  assumes "audioCache st (trim t) = None" and "t \<noteq> []"
  shows "tts_begin t st = (InFlight, st\<lparr>gatewayCalls := gatewayCalls st @ [t]\<rparr>)"
    and "callsFor (trim t) (tts_step st (Call t)) = Suc (callsFor (trim t) st)"
  using assms by (simp_all add: tts_begin_def Let_def callsFor_def)

lemma no_audio:
  "response = None \<or> response = Some [] \<Longrightarrow> tts_end t response st = (None, st)"
  by (auto simp: tts_end_def)

lemma failed_request:
  assumes "audioCache st (trim t) = None" and "t \<noteq> []"
    and "gateway t = None \<or> gateway t = Some []"
  shows "generateGeminiTTS gateway t st = (None, st\<lparr>gatewayCalls := gatewayCalls st @ [t]\<rparr>)"
  using assms no_audio [of "gateway t" t]
  by (simp add: generateGeminiTTS_def cache_miss(1))

lemma generate_calls:
  assumes "audioCache st (trim t) = None" and "t \<noteq> []"
  shows "callsFor (trim t) (snd (generateGeminiTTS gateway t st)) = Suc (callsFor (trim t) st)"
  using assms
  by (simp add: generateGeminiTTS_def cache_miss(1) tts_end_calls callsFor_def)

text \<open>
  Claim C4, as stated, fails: the cache keeps successful answers only. When the gateway
  gives no audio (an error, a rate limit, an empty answer), playing the same step again
  asks the gateway again. Here the text \<open>hello\<close> is requested twice in a row against a
  gateway that never answers with audio, and the gateway is invoked twice.
\<close>

theorem synthesis_repeated_after_failure:
  "callsFor ''hello''
     (snd (generateGeminiTTS noAudio ''hello'' (snd (generateGeminiTTS noAudio ''hello'' tts_empty))))
   = 2"
  by (simp add: generateGeminiTTS_def tts_begin_def tts_end_def tts_empty_def noAudio_def
      callsFor_def trim_def is_ws_def Let_def)

text \<open>
  Claim C4, amended. Once the gateway has answered a request for a text with audio, the
  cache holds audio under the cache key of that text (the text without surrounding white
  space) from then on, and the gateway is never invoked again for a text with that key,
  whatever calls and answers follow and however they interleave. Every later call for a
  text that is not empty and has that key returns the audio the cache holds then, which
  is not empty, and leaves the service unchanged; that audio is the one of the last answer
  with audio for the key, so it is the first answer's unless a request that was already
  in flight answers with audio later. An answer without audio (an error, a rate limit, an
  empty answer) makes the call return \<^verbatim>\<open>null\<close> and leaves cache and service as they
  were. A call for a text that is not empty and whose key is not in the cache invokes the
  gateway; so a call for such a text that ends without audio, followed by another call
  for it with nothing in between, invokes the gateway twice. Two callers that ask for the
  same uncached text before either answer has arrived both invoke the gateway; both
  complete, and the cache holds the audio that arrived last.
\<close>

theorem synthesis_memoized_after_success:
  "(a \<noteq> [] \<longrightarrow>
      callsFor (trim t) (tts_run (tts_step st (Answer t (Some a))) es)
        = callsFor (trim t) (tts_step st (Answer t (Some a)))
      \<and> audioCache (tts_run (tts_step st (Answer t (Some a))) es) (trim t)
        = Some (case lastAudio (trim t) es of None \<Rightarrow> a | Some c \<Rightarrow> c)
      \<and> (case lastAudio (trim t) es of None \<Rightarrow> a | Some c \<Rightarrow> c) \<noteq> []
      \<and> (trim t' = trim t \<and> t' \<noteq> [] \<longrightarrow>
           generateGeminiTTS gateway t' (tts_run (tts_step st (Answer t (Some a))) es)
             = (Some (case lastAudio (trim t) es of None \<Rightarrow> a | Some c \<Rightarrow> c),
                tts_run (tts_step st (Answer t (Some a))) es)))
   \<and> (response = None \<or> response = Some [] \<longrightarrow>
        tts_end t response st = (None, st) \<and> tts_step st (Answer t response) = st)
   \<and> (t \<noteq> [] \<and> audioCache st (trim t) = None \<longrightarrow>
        tts_begin t st = (InFlight, st\<lparr>gatewayCalls := gatewayCalls st @ [t]\<rparr>)
        \<and> callsFor (trim t) (tts_step st (Call t)) = Suc (callsFor (trim t) st))
   \<and> (t \<noteq> [] \<and> audioCache st (trim t) = None \<and> (gateway t = None \<or> gateway t = Some []) \<longrightarrow>
        generateGeminiTTS gateway t st = (None, st\<lparr>gatewayCalls := gatewayCalls st @ [t]\<rparr>)
        \<and> callsFor (trim t)
             (snd (generateGeminiTTS gateway' t (snd (generateGeminiTTS gateway t st))))
           = callsFor (trim t) st + 2)
   \<and> (a \<noteq> [] \<and> b \<noteq> [] \<and> t \<noteq> [] \<and> audioCache st (trim t) = None \<longrightarrow>
        gatewayCalls (tts_run st [Call t, Call t, Answer t (Some a), Answer t (Some b)])
          = gatewayCalls st @ [t, t]
        \<and> audioCache (tts_run st [Call t, Call t, Answer t (Some a), Answer t (Some b)]) (trim t)
          = Some b)"
proof -
  let ?st1 = "tts_step st (Answer t (Some a))"
  let ?st2 = "tts_run ?st1 es"
  let ?c = "case lastAudio (trim t) es of None \<Rightarrow> a | Some c \<Rightarrow> c"
  have 1: "callsFor (trim t) ?st2 = callsFor (trim t) ?st1
           \<and> audioCache ?st2 (trim t) = Some ?c \<and> ?c \<noteq> []
           \<and> (trim t' = trim t \<and> t' \<noteq> [] \<longrightarrow> generateGeminiTTS gateway t' ?st2 = (Some ?c, ?st2))"
    if a: "a \<noteq> []"
  proof -
    have c1: "audioCache ?st1 (trim t) = Some a" using a by (simp add: tts_end_caches)
    then have n: "callsFor (trim t) ?st2 = callsFor (trim t) ?st1" by (simp add: tts_run_cached)
    have c2: "audioCache ?st2 (trim t) = Some ?c"
      unfolding tts_run_cache c1 by (simp split: option.split)
    have ne: "?c \<noteq> []" using a lastAudio_nonempty [of "trim t" es] by (auto split: option.split)
    have "generateGeminiTTS gateway t' ?st2 = (Some ?c, ?st2)" if "trim t' = trim t \<and> t' \<noteq> []"
      using cache_hit [of ?st2 t' ?c gateway] c2 ne that by simp
    with n c2 ne show ?thesis by blast
  qed
  have 2: "tts_end t response st = (None, st) \<and> tts_step st (Answer t response) = st"
    if "response = None \<or> response = Some []"
    using no_audio [OF that, of t st] by simp
  have 3: "tts_begin t st = (InFlight, st\<lparr>gatewayCalls := gatewayCalls st @ [t]\<rparr>)
           \<and> callsFor (trim t) (tts_step st (Call t)) = Suc (callsFor (trim t) st)"
    if "t \<noteq> [] \<and> audioCache st (trim t) = None"
    using cache_miss [of st t] that by simp
  have 4: "generateGeminiTTS gateway t st = (None, st\<lparr>gatewayCalls := gatewayCalls st @ [t]\<rparr>)
           \<and> callsFor (trim t)
                (snd (generateGeminiTTS gateway' t (snd (generateGeminiTTS gateway t st))))
              = callsFor (trim t) st + 2"
    if h: "t \<noteq> [] \<and> audioCache st (trim t) = None \<and> (gateway t = None \<or> gateway t = Some [])"
  proof -
    from h have f: "generateGeminiTTS gateway t st
                      = (None, st\<lparr>gatewayCalls := gatewayCalls st @ [t]\<rparr>)"
      by (simp add: failed_request)
    have "callsFor (trim t) (snd (generateGeminiTTS gateway' t (st\<lparr>gatewayCalls := gatewayCalls st @ [t]\<rparr>)))
            = Suc (callsFor (trim t) (st\<lparr>gatewayCalls := gatewayCalls st @ [t]\<rparr>))"
      using h by (intro generate_calls) simp_all
    then show ?thesis using f by (simp add: callsFor_def)
  qed
  have 5: "gatewayCalls (tts_run st [Call t, Call t, Answer t (Some a), Answer t (Some b)])
             = gatewayCalls st @ [t, t]
           \<and> audioCache (tts_run st [Call t, Call t, Answer t (Some a), Answer t (Some b)]) (trim t)
             = Some b"
    if "a \<noteq> [] \<and> b \<noteq> [] \<and> t \<noteq> [] \<and> audioCache st (trim t) = None"
    using that by (simp add: tts_run_def tts_begin_def tts_end_def Let_def)
  from 1 2 3 4 5 show ?thesis by blast
qed

theorem synthesis_memoized_after_success_witness:
  "callsFor ''hello''
     (tts_run (tts_step tts_empty (Answer '' hello'' (Some ''AAAA'')))
        [Call ''hello'', Answer ''hello '' (Some ''BBBB''), Answer ''hello'' None, Call ''hello''])
     = callsFor ''hello'' (tts_step tts_empty (Answer '' hello'' (Some ''AAAA'')))
   \<and> audioCache
       (tts_run (tts_step tts_empty (Answer '' hello'' (Some ''AAAA'')))
          [Call ''hello'', Answer ''hello '' (Some ''BBBB''), Answer ''hello'' None, Call ''hello''])
       ''hello''
     = Some ''BBBB''
   \<and> generateGeminiTTS noAudio ''hello ''
       (tts_run (tts_step tts_empty (Answer '' hello'' (Some ''AAAA'')))
          [Call ''hello'', Answer ''hello '' (Some ''BBBB''), Answer ''hello'' None, Call ''hello''])
     = (Some ''BBBB'',
        tts_run (tts_step tts_empty (Answer '' hello'' (Some ''AAAA'')))
          [Call ''hello'', Answer ''hello '' (Some ''BBBB''), Answer ''hello'' None, Call ''hello''])
   \<and> tts_end '' hello'' (Some []) tts_empty = (None, tts_empty)
   \<and> tts_begin '' hello'' tts_empty = (InFlight, tts_empty\<lparr>gatewayCalls := ['' hello'']\<rparr>)
   \<and> callsFor ''hello'' (tts_step tts_empty (Call '' hello'')) = 1
   \<and> generateGeminiTTS noAudio '' hello'' tts_empty
     = (None, tts_empty\<lparr>gatewayCalls := ['' hello'']\<rparr>)
   \<and> callsFor ''hello''
       (snd (generateGeminiTTS noAudio '' hello'' (snd (generateGeminiTTS noAudio '' hello'' tts_empty))))
     = 2
   \<and> gatewayCalls (tts_run tts_empty
        [Call '' hello'', Call '' hello'', Answer '' hello'' (Some ''AAAA''), Answer '' hello'' (Some ''BBBB'')])
     = ['' hello'', '' hello'']
   \<and> audioCache (tts_run tts_empty
        [Call '' hello'', Call '' hello'', Answer '' hello'' (Some ''AAAA''), Answer '' hello'' (Some ''BBBB'')])
        ''hello''
     = Some ''BBBB''"
proof -
  have k: "trim '' hello'' = ''hello''" "trim ''hello '' = ''hello''" "trim ''hello'' = ''hello''"
    by (simp_all add: trim_def is_ws_def)
  have e: "audioCache tts_empty ''hello'' = None" "gatewayCalls tts_empty = []"
    "callsFor ''hello'' tts_empty = 0" "noAudio '' hello'' = None"
    by (simp_all add: tts_empty_def callsFor_def noAudio_def)
  have l: "lastAudio ''hello''
             [Call ''hello'', Answer ''hello '' (Some ''BBBB''), Answer ''hello'' None, Call ''hello'']
           = Some ''BBBB''"
    by (simp add: k)
  note t = synthesis_memoized_after_success
      [of "''AAAA''" "'' hello''" tts_empty
          "[Call ''hello'', Answer ''hello '' (Some ''BBBB''), Answer ''hello'' None, Call ''hello'']"
          "''hello ''" noAudio "Some []" noAudio "''BBBB''"]
  have p1: "''AAAA'' \<noteq> []" by simp
  have p1': "trim ''hello '' = trim '' hello'' \<and> ''hello '' \<noteq> []" by (simp add: k)
  have p2: "Some [] = None \<or> Some [] = Some ([] :: string)" by simp
  have p3: "'' hello'' \<noteq> [] \<and> audioCache tts_empty (trim '' hello'') = None"
    by (simp add: k e)
  have p4: "'' hello'' \<noteq> [] \<and> audioCache tts_empty (trim '' hello'') = None
            \<and> (noAudio '' hello'' = None \<or> noAudio '' hello'' = Some [])"
    by (simp add: k e)
  have p5: "''AAAA'' \<noteq> [] \<and> ''BBBB'' \<noteq> [] \<and> '' hello'' \<noteq> []
            \<and> audioCache tts_empty (trim '' hello'') = None"
    by (simp add: k e)
  note t1 = t [THEN conjunct1, THEN mp, OF p1, unfolded k l option.case]
  note t2 = t [THEN conjunct2, THEN conjunct1, THEN mp, OF p2]
  note t3 = t [THEN conjunct2, THEN conjunct2, THEN conjunct1, THEN mp, OF p3, unfolded k e append_Nil]
  note t4 = t [THEN conjunct2, THEN conjunct2, THEN conjunct2, THEN conjunct1, THEN mp, OF p4,
      unfolded k e append_Nil]
  note t5 = t [THEN conjunct2, THEN conjunct2, THEN conjunct2, THEN conjunct2, THEN mp, OF p5,
      unfolded k e append_Nil]
  have w1a: "''hello'' = ''hello'' \<and> ''hello '' \<noteq> []" by simp
  note t1' = t1 [THEN conjunct2, THEN conjunct2, THEN conjunct2, THEN mp, OF w1a]
  have n: "Suc 0 = 1" "0 + 2 = (2::nat)" by simp_all
  from t1 t1' t2 t3 [unfolded n] t4 [unfolded n] t5 show ?thesis by blast
qed




section \<open>Verification: background assets and follow-up answers\<close>

text \<open>
  Claim C8. A loaded image is merged by the updater only into a plan whose topic is the
  topic of the plan the request was issued under. When the topics differ, or no plan is
  active, the updater returns the state it was given: no step of the active lesson is
  touched. Whether the lesson is still the same one is decided by the topic text alone.
\<close>

theorem stale_asset_discarded:
  "(topic p \<noteq> topic plan \<longrightarrow> mergeAsset plan i url (Some p) = Kept (Some p))
   \<and> mergeAsset plan i url None = Kept None
   \<and> (mergeAsset plan i url prev \<noteq> Kept prev \<longrightarrow> (\<exists>p'. prev = Some p' \<and> topic p' = topic plan))"
  by (auto simp: mergeAsset_def split: option.splits)

theorem stale_asset_discarded_witness:
  "topic plan2 \<noteq> topic plan3
   \<and> mergeAsset plan3 1 ''https://img/1.png'' (Some plan2) = Kept (Some plan2)
   \<and> mergeAsset plan3 1 ''https://img/1.png'' None = Kept None
   \<and> mergeAsset plan3 1 ''https://img/1.png'' (Some plan3) \<noteq> Kept (Some plan3)
   \<and> (\<exists>p'. Some plan3 = Some p' \<and> topic p' = topic plan3)"
proof -
  have t: "topic plan2 \<noteq> topic plan3" by (simp add: plan2_def plan3_def)
  have m: "mergeAsset plan3 1 ''https://img/1.png'' (Some plan3) \<noteq> Kept (Some plan3)"
    by (simp add: mergeAsset_def plan3_def)
  show ?thesis
    using t m stale_asset_discarded [of plan2 plan3 1 "''https://img/1.png''" "Some plan3"]
    by simp
qed

lemma followUpIndex_captured_plan:
  "followUpIndex plan response i = targetStepIndex response \<and> inRange plan (targetStepIndex response)
   \<or> followUpIndex plan response i = i"
  by (simp add: followUpIndex_def inRange_def)


section \<open>Verification: the player\<close>

subsection \<open>What each step leaves unchanged\<close>


named_theorems prim

declare setState_def [prim] setTimeout_def [prim] updTask_def [prim]

lemma stopAudio_frame:
  "cur (stopAudio w) = cur w" "rendered (stopAudio w) = rendered w" "tasks (stopAudio w) = tasks w"
  "cleanupPrepare (stopAudio w) = cleanupPrepare w" "timers (stopAudio w) = timers w"
  "tts (stopAudio w) = tts w" "now (stopAudio w) = now w" "hasSynth (stopAudio w) = hasSynth w"
  "ctx (stopAudio w) = ctx w" "decodable (stopAudio w) = decodable w"
  "pendingPcm (stopAudio w) = pendingPcm w" "cleanupPlayback (stopAudio w) = cleanupPlayback w"
  "cleanupPrefetch (stopAudio w) = cleanupPrefetch w" "nextPlanId (stopAudio w) = nextPlanId w"
  "audioSourceRef (stopAudio w) = None"
  by (simp_all add: stopAudio_def Let_def split: option.split)

lemma handleEnded_frame:
  "cur (handleEnded r w) = cur w" "rendered (handleEnded r w) = rendered w"
  "tasks (handleEnded r w) = tasks w" "cleanupPrepare (handleEnded r w) = cleanupPrepare w"
  "tts (handleEnded r w) = tts w"
  by (simp_all add: handleEnded_def prim)

lemma fallback_frame:
  "cur (fallbackToWebSpeech t r w) = cur w" "rendered (fallbackToWebSpeech t r w) = rendered w"
  "tasks (fallbackToWebSpeech t r w) = tasks w"
  "cleanupPrepare (fallbackToWebSpeech t r w) = cleanupPrepare w"
  "tts (fallbackToWebSpeech t r w) = tts w"
  by (simp_all add: fallbackToWebSpeech_def handleEnded_frame)

lemma startSource_frame:
  "cur (startSource d r w) = cur w" "rendered (startSource d r w) = rendered w"
  "tasks (startSource d r w) = tasks w" "cleanupPrepare (startSource d r w) = cleanupPrepare w"
  "tts (startSource d r w) = tts w"
  by (simp_all add: startSource_def fallback_frame)

lemma playPCM_frame:
  "cur (playPCM d r w) = cur w" "rendered (playPCM d r w) = rendered w"
  "tasks (playPCM d r w) = tasks w" "cleanupPrepare (playPCM d r w) = cleanupPrepare w"
  "tts (playPCM d r w) = tts w"
  by (simp_all add: playPCM_def startSource_frame handleEnded_frame split: ctx_state.split)

lemma effectPlayback_frame:
  "cur (effectPlayback r w) = cur w" "rendered (effectPlayback r w) = rendered w"
  "tasks (effectPlayback r w) = tasks w" "cleanupPrepare (effectPlayback r w) = cleanupPrepare w"
  "tts (effectPlayback r w) = tts w"
  by (simp_all add: effectPlayback_def Let_def playPCM_frame fallback_frame stopAudio_frame prim)

lemma runCleanupPlayback_frame:
  "cur (runCleanupPlayback w) = cur w" "rendered (runCleanupPlayback w) = rendered w"
  "tasks (runCleanupPlayback w) = tasks w" "cleanupPrepare (runCleanupPlayback w) = cleanupPrepare w"
  "tts (runCleanupPlayback w) = tts w"
  by (simp_all add: runCleanupPlayback_def stopAudio_frame)

lemma prefetch_frame:
  "cur (effectPrefetch r w) = cur w" "rendered (effectPrefetch r w) = rendered w"
  "tasks (effectPrefetch r w) = tasks w" "cleanupPrepare (effectPrefetch r w) = cleanupPrepare w"
  "tts (effectPrefetch r w) = tts w"
  "cur (runCleanupPrefetch w) = cur w" "rendered (runCleanupPrefetch w) = rendered w"
  "tasks (runCleanupPrefetch w) = tasks w" "cleanupPrepare (runCleanupPrefetch w) = cleanupPrepare w"
  "tts (runCleanupPrefetch w) = tts w"
  by (simp_all add: effectPrefetch_def runCleanupPrefetch_def Let_def prim split: option.split)

lemma effectIndexChange_frame:
  "rendered (effectIndexChange r w) = rendered w"
  "tasks (effectIndexChange r w) = tasks w" "cleanupPrepare (effectIndexChange r w) = cleanupPrepare w"
  "tts (effectIndexChange r w) = tts w"
  by (simp_all add: effectIndexChange_def stopAudio_frame prim)

lemma effectReset3D_frame:
  "rendered (effectReset3D r w) = rendered w"
  "tasks (effectReset3D r w) = tasks w" "cleanupPrepare (effectReset3D r w) = cleanupPrepare w"
  "tts (effectReset3D r w) = tts w"
  by (simp_all add: effectReset3D_def prim)

lemmas frames = stopAudio_frame handleEnded_frame fallback_frame startSource_frame playPCM_frame
  effectPlayback_frame runCleanupPlayback_frame prefetch_frame effectIndexChange_frame effectReset3D_frame


lemma task_steps_cur:
  "cur (applyAudio i a w) = (if isCancelled (tasks w ! i) then cur w else (cur w)\<lparr>readyAudio := a\<rparr>)"
  "cur (afterImage i w) =
     (if t_isMuted (tasks w ! i) \<and> \<not> isCancelled (tasks w ! i) then (cur w)\<lparr>readyAudio := None\<rparr> else cur w)"
  "cur (settleElapsed i w) =
     (if i < length (tasks w) \<and> t_stage (tasks w ! i) = AwaitSettle \<and> \<not> isCancelled (tasks w ! i)
      then (cur w)\<lparr>isPreparing := False\<rparr> else cur w)"
  by (simp_all add: applyAudio_def afterImage_def settleElapsed_def Let_def prim split: prod.split)

lemma cur_effectPrepare:
  "cur (effectPrepare r w) =
     (if isPreparing r \<and> \<not> isLiveSession r \<and> isMuted r
         \<and> (case stepOf r of None \<Rightarrow> False | Some step \<Rightarrow> is3DMode r \<or> \<not> truthy (imageUrl step))
      then (cur w)\<lparr>readyAudio := None\<rparr> else cur w)"
  by (simp add: effectPrepare_def startPrepare_def Let_def task_steps_cur split: option.split)

lemma cur_effectIndexChange:
  "cur (effectIndexChange r w) =
     (if stepOf r \<noteq> None \<and> \<not> isLiveSession r \<and> currentStepIndex r \<noteq> internalStepIndex r
      then (cur w)\<lparr>isPreparing := True, internalStepIndex := currentStepIndex r, readyAudio := None\<rparr>
      else cur w)"
  by (simp add: effectIndexChange_def stopAudio_frame prim)

lemma cur_runCleanupPrepare: "cur (runCleanupPrepare w) = cur w"
  by (simp add: runCleanupPrepare_def prim split: option.split)

lemma cur_effectReset3D: "cur (effectReset3D r w) = (cur w)\<lparr>is3DMode := False\<rparr>"
  by (simp add: effectReset3D_def prim)

lemma cur_render_pass: "cur (render_pass w) = nextState (rendered w) (cur w)"
  by (simp add: render_pass_def nextState_def indexChanges_def preparesAtOnce_def Let_def
      frames cur_effectPrepare cur_effectIndexChange cur_runCleanupPrepare cur_effectReset3D)

lemma rendered_effectPrepare: "rendered (effectPrepare r w) = rendered w"
  by (simp add: effectPrepare_def startPrepare_def afterImage_def applyAudio_def Let_def prim
      split: option.split prod.split)

lemma rendered_runCleanupPrepare: "rendered (runCleanupPrepare w) = rendered w"
  by (simp add: runCleanupPrepare_def prim split: option.split)

lemma rendered_render_pass: "rendered (render_pass w) = Some (cur w)"
  by (simp add: render_pass_def Let_def frames rendered_effectPrepare rendered_runCleanupPrepare)


subsection \<open>Every commit ends in a quiescent world\<close>

lemma stepOf_cong:
  "lessonPlan a = lessonPlan b \<Longrightarrow> currentStepIndex a = currentStepIndex b \<Longrightarrow> stepOf a = stepOf b"
  "lessonPlan a = lessonPlan b \<Longrightarrow> currentStepIndex a = currentStepIndex b \<Longrightarrow> stepId a = stepId b"
  by (simp_all add: stepOf_def stepId_def split: option.split prod.split)

lemma nextState_app:
  "lessonPlan (nextState p r) = lessonPlan r"
  "currentStepIndex (nextState p r) = currentStepIndex r"
  "playerState (nextState p r) = playerState r"
  "isMuted (nextState p r) = isMuted r"
  "audioLanguage (nextState p r) = audioLanguage r"
  "isLiveSession (nextState p r) = isLiveSession r"
  by (simp_all add: nextState_def Let_def)

lemma nextState_step:
  "stepOf (nextState p r) = stepOf r" "stepId (nextState p r) = stepId r"
  by (rule stepOf_cong; simp add: nextState_app)+

lemma nextState_fix:
  assumes "depsIndex l = depsIndex r" and "depsPrepare l = depsPrepare r"
    and "depsReset3D l = depsReset3D r"
  shows "nextState (Some l) r = r"
  using assms by (simp add: nextState_def indexChanges_def preparesAtOnce_def changed_def)

text \<open>After a render that followed another one, at most the ready audio is cleared.\<close>

lemma nextState_second:
  "nextState (Some r) (nextState p r) = nextState p r
   \<or> nextState (Some r) (nextState p r) = (nextState p r)\<lparr>readyAudio := None\<rparr>"
proof -
  let ?s = "nextState p r"
  have idx: "currentStepIndex ?s = currentStepIndex r" by (simp add: nextState_app)
  have "\<not> indexChanges (Some r) ?s"
  proof
    assume a: "indexChanges (Some r) ?s"
    then have ne: "currentStepIndex ?s \<noteq> internalStepIndex ?s" and ch: "depsIndex r \<noteq> depsIndex ?s"
      by (simp_all add: indexChanges_def changed_def)
    from ne have "\<not> indexChanges p r"
      by (auto simp: nextState_def Let_def split: if_splits)
    then have "internalStepIndex ?s = internalStepIndex r"
      by (simp add: nextState_def Let_def)
    then have "depsIndex ?s = depsIndex r"
      by (simp add: depsIndex_def nextState_app nextState_step)
    with ch show False by simp
  qed
  moreover have "\<not> changed depsReset3D (Some r) ?s"
    by (simp add: changed_def depsReset3D_def idx)
  ultimately show ?thesis
    by (simp add: nextState_def [of "Some r" ?s] Let_def)
qed

lemma step_readyAudio:
  "stepOf (s\<lparr>readyAudio := a\<rparr>) = stepOf s" "stepId (s\<lparr>readyAudio := a\<rparr>) = stepId s"
  by (rule stepOf_cong; simp)+

lemma currentText_readyAudio: "currentText (s\<lparr>readyAudio := a\<rparr>) = currentText s"
  by (simp add: currentText_def step_readyAudio split: option.split)

lemma deps_readyAudio:
  "depsIndex (s\<lparr>readyAudio := a\<rparr>) = depsIndex s"
  "depsPrepare (s\<lparr>readyAudio := a\<rparr>) = depsPrepare s"
  "depsReset3D (s\<lparr>readyAudio := a\<rparr>) = depsReset3D s"
  by (simp_all add: depsIndex_def depsPrepare_def depsReset3D_def step_readyAudio currentText_readyAudio)

lemma nextState_third:
  "nextState (Some (nextState p r)) (nextState (Some r) (nextState p r))
     = nextState (Some r) (nextState p r)"
proof -
  let ?s = "nextState p r"
  from nextState_second [of r p]
  consider "nextState (Some r) ?s = ?s" | "nextState (Some r) ?s = ?s\<lparr>readyAudio := None\<rparr>"
    by blast
  then show ?thesis
  proof cases
    case 1
    have "nextState (Some ?s) ?s = ?s" by (rule nextState_fix) simp_all
    with 1 show ?thesis by simp
  next
    case 2
    have "nextState (Some ?s) (?s\<lparr>readyAudio := None\<rparr>) = ?s\<lparr>readyAudio := None\<rparr>"
      by (rule nextState_fix) (simp_all only: deps_readyAudio)
    with 2 show ?thesis by simp
  qed
qed

lemma settle_quiescent: "quiescent w \<Longrightarrow> settle n w = w"
  by (cases n) simp_all

lemma quiescent_after_three: "quiescent (render_pass (render_pass (render_pass w)))"
  unfolding quiescent_def rendered_render_pass cur_render_pass
  by (simp only: nextState_third)

lemma settle_reaches_quiescence: "quiescent (settle (Suc (Suc (Suc (Suc n)))) w)"
proof (cases "quiescent w")
  case True
  then show ?thesis by (simp only: settle_quiescent)
next
  case q0: False
  let ?w1 = "render_pass w"
  show ?thesis
  proof (cases "quiescent ?w1")
    case True
    then show ?thesis using q0 by (simp only: settle.simps if_False if_True settle_quiescent)
  next
    case q1: False
    let ?w2 = "render_pass ?w1"
    show ?thesis
    proof (cases "quiescent ?w2")
      case True
      then show ?thesis using q0 q1 by (simp only: settle.simps if_False if_True settle_quiescent)
    next
      case q2: False
      have "quiescent (render_pass ?w2)" by (rule quiescent_after_three)
      then show ?thesis using q0 q1 q2 by (simp only: settle.simps if_False if_True settle_quiescent)
    qed
  qed
qed

lemma commit_quiescent: "quiescent (commit w)"
proof -
  have "(50::nat) = Suc (Suc (Suc (Suc 46)))" by simp
  then show ?thesis
    unfolding commit_def by (simp only: settle_reaches_quiescence)
qed

lemma reachable_quiescent: "reachable w \<Longrightarrow> quiescent w"
  by (induction rule: reachable.induct) (simp_all add: mounted_def fire_def commit_quiescent)


subsection \<open>The invariant of the preparation tasks\<close>

lemma task_le_refl: "task_le t t"
  by (simp add: task_le_def)

lemma task_le_trans: "task_le a b \<Longrightarrow> task_le b c \<Longrightarrow> task_le a c"
  by (auto simp: task_le_def)

lemma task_le_stage: "t_stage t \<noteq> Finished \<or> s = Finished \<Longrightarrow> task_le t (t\<lparr>t_stage := s\<rparr>)"
  by (auto simp: task_le_def live_def)

lemma task_le_cancel: "task_le t (t\<lparr>isCancelled := True\<rparr>)"
  by (simp add: task_le_def live_def)

lemma same_tasksI:
  "tasks w' = tasks w \<Longrightarrow> cleanupPrepare w' = cleanupPrepare w \<Longrightarrow> rendered w' = rendered w
   \<Longrightarrow> same_tasks w w'"
  by (simp add: same_tasks_def task_le_refl)

lemma same_tasks_refl: "same_tasks w w"
  by (simp add: same_tasksI)

lemma same_tasks_trans: "same_tasks a b \<Longrightarrow> same_tasks b c \<Longrightarrow> same_tasks a c"
  unfolding same_tasks_def by (auto intro: task_le_trans)

lemma same_tasks_grow: "same_tasks w w' \<Longrightarrow> tasks_grow w w'"
  by (simp add: same_tasks_def tasks_grow_def)

lemma tasks_grow_refl: "tasks_grow w w"
  by (simp add: tasks_grow_def task_le_refl)

lemma tasks_grow_trans: "tasks_grow a b \<Longrightarrow> tasks_grow b c \<Longrightarrow> tasks_grow a c"
  unfolding tasks_grow_def by (auto intro: task_le_trans)

lemma startedFrom_le: "task_le t t' \<Longrightarrow> startedFrom l t \<Longrightarrow> startedFrom l t'"
  by (simp add: task_le_def startedFrom_def)

lemma tasks_ok_live:
  "tasks_ok w \<Longrightarrow> i < length (tasks w) \<Longrightarrow> live (tasks w ! i) \<Longrightarrow> cleanupPrepare w = Some i"
  unfolding tasks_ok_def by blast

lemma tasks_ok_registered:
  assumes "tasks_ok w" and "cleanupPrepare w = Some i"
  shows "i < length (tasks w)" and "\<not> isCancelled (tasks w ! i)"
    and "\<exists>l. rendered w = Some l \<and> startedFrom l (tasks w ! i)"
  using assms unfolding tasks_ok_def by blast+

lemma tasks_ok_prepares:
  "tasks_ok w \<Longrightarrow> rendered w = Some l \<Longrightarrow> prepares l \<Longrightarrow> cleanupPrepare w \<noteq> None"
  unfolding tasks_ok_def by blast

lemma tasks_okI:
  assumes "\<And>i. i < length (tasks w) \<Longrightarrow> live (tasks w ! i) \<Longrightarrow> cleanupPrepare w = Some i"
    and "\<And>i. cleanupPrepare w = Some i \<Longrightarrow>
            i < length (tasks w) \<and> \<not> isCancelled (tasks w ! i)
            \<and> (\<exists>l. rendered w = Some l \<and> startedFrom l (tasks w ! i))"
    and "\<And>l. rendered w = Some l \<Longrightarrow> prepares l \<Longrightarrow> cleanupPrepare w \<noteq> None"
  shows "tasks_ok w"
  unfolding tasks_ok_def using assms by blast

lemma same_tasksD:
  assumes "same_tasks w w'"
  shows "length (tasks w') = length (tasks w)" and "cleanupPrepare w' = cleanupPrepare w"
    and "rendered w' = rendered w"
    and "j < length (tasks w) \<Longrightarrow> task_le (tasks w ! j) (tasks w' ! j)"
    and "j < length (tasks w) \<Longrightarrow> isCancelled (tasks w' ! j) = isCancelled (tasks w ! j)"
  using assms unfolding same_tasks_def by blast+

lemma tasks_ok_same:
  assumes ok: "tasks_ok w" and s: "same_tasks w w'"
  shows "tasks_ok w'"
proof (rule tasks_okI)
  note len = same_tasksD(1) [OF s] and c = same_tasksD(2) [OF s] and r = same_tasksD(3) [OF s]
  {
    fix i assume i: "i < length (tasks w')" and l: "live (tasks w' ! i)"
    from i have i': "i < length (tasks w)" by (simp only: len)
    from same_tasksD(4) [OF s i'] l have "live (tasks w ! i)" by (simp add: task_le_def)
    then have "cleanupPrepare w = Some i" using ok i' by (rule tasks_ok_live [rotated 2])
    then show "cleanupPrepare w' = Some i" by (simp only: c)
  next
    fix i assume "cleanupPrepare w' = Some i"
    then have ci: "cleanupPrepare w = Some i" by (simp only: c)
    note i = tasks_ok_registered(1) [OF ok ci] and nc = tasks_ok_registered(2) [OF ok ci]
    from tasks_ok_registered(3) [OF ok ci]
    obtain l where l: "rendered w = Some l" "startedFrom l (tasks w ! i)" by blast
    have sf: "startedFrom l (tasks w' ! i)" using startedFrom_le [OF same_tasksD(4) [OF s i] l(2)] .
    have "i < length (tasks w')" using i by (simp only: len)
    moreover have "\<not> isCancelled (tasks w' ! i)" using nc same_tasksD(5) [OF s i] by simp
    moreover have "\<exists>l. rendered w' = Some l \<and> startedFrom l (tasks w' ! i)"
      using l(1) sf by (simp only: r) blast
    ultimately show "i < length (tasks w') \<and> \<not> isCancelled (tasks w' ! i)
            \<and> (\<exists>l. rendered w' = Some l \<and> startedFrom l (tasks w' ! i))"
      by blast
  next
    fix l assume "rendered w' = Some l" and p: "prepares l"
    then have "rendered w = Some l" by (simp only: r)
    from tasks_ok_prepares [OF ok this p] show "cleanupPrepare w' \<noteq> None" by (simp add: c)
  }
qed

lemma nth_updated:
  "j < length xs \<Longrightarrow> xs[i := f (xs ! i)] ! j = (if j = i then f (xs ! j) else xs ! j)"
  by (cases "i < length xs") (auto simp: nth_list_update)

lemma same_tasks_updStage:
  assumes "i < length (tasks w) \<longrightarrow> t_stage (tasks w ! i) \<noteq> Finished \<or> s = Finished"
  shows "same_tasks w (updTask i (\<lambda>t. t\<lparr>t_stage := s\<rparr>) w)"
proof -
  have "task_le (tasks w ! j) ((tasks w)[i := (tasks w ! i)\<lparr>t_stage := s\<rparr>] ! j)
        \<and> isCancelled ((tasks w)[i := (tasks w ! i)\<lparr>t_stage := s\<rparr>] ! j) = isCancelled (tasks w ! j)"
    if j: "j < length (tasks w)" for j
  proof (cases "j = i")
    case True
    then have "t_stage (tasks w ! j) \<noteq> Finished \<or> s = Finished" using assms j by simp
    then have "task_le (tasks w ! j) ((tasks w ! j)\<lparr>t_stage := s\<rparr>)" by (rule task_le_stage)
    then show ?thesis using True j by (simp add: nth_updated)
  next
    case False
    then show ?thesis using j by (simp add: nth_updated task_le_refl)
  qed
  then show ?thesis by (simp add: same_tasks_def updTask_def)
qed

lemma same_tasks_setState: "same_tasks w (setState f w)"
  by (simp add: same_tasksI setState_def)

lemma same_tasks_setTimeout: "same_tasks w (setTimeout k d w)"
  by (simp add: same_tasksI setTimeout_def)

lemma same_tasks_applyAudio:
  assumes "i < length (tasks w) \<longrightarrow> t_stage (tasks w ! i) \<noteq> Finished"
  shows "same_tasks w (applyAudio i a w)"
proof (cases "isCancelled (tasks w ! i)")
  case True
  then show ?thesis
    using same_tasks_updStage [of i w Finished] by (simp add: applyAudio_def)
next
  case False
  have 1: "same_tasks w (setState (\<lambda>s. s\<lparr>readyAudio := a\<rparr>) w)" by (rule same_tasks_setState)
  have 2: "same_tasks (setState (\<lambda>s. s\<lparr>readyAudio := a\<rparr>) w)
             (updTask i (\<lambda>t. t\<lparr>t_stage := AwaitSettle\<rparr>) (setState (\<lambda>s. s\<lparr>readyAudio := a\<rparr>) w))"
    using assms by (intro same_tasks_updStage) (simp add: setState_def)
  show ?thesis
    using False same_tasks_trans [OF same_tasks_trans [OF 1 2] same_tasks_setTimeout]
    by (simp add: applyAudio_def)
qed

lemma same_tasks_afterImage:
  assumes "i < length (tasks w) \<longrightarrow> t_stage (tasks w ! i) \<noteq> Finished"
  shows "same_tasks w (afterImage i w)"
proof (cases "t_isMuted (tasks w ! i)")
  case True
  then show ?thesis using same_tasks_applyAudio [OF assms] by (simp add: afterImage_def Let_def)
next
  case False
  obtain c st where b: "tts_begin (t_text (tasks w ! i)) (tts w) = (c, st)" by (cases "tts_begin (t_text (tasks w ! i)) (tts w)")
  have 1: "same_tasks w (w\<lparr>tts := st\<rparr>)" by (simp add: same_tasksI)
  have 2: "same_tasks (w\<lparr>tts := st\<rparr>) (updTask i (\<lambda>t. t\<lparr>t_stage := AwaitTTS c\<rparr>) (w\<lparr>tts := st\<rparr>))"
    using assms by (intro same_tasks_updStage) simp
  show ?thesis
    using False b same_tasks_trans [OF 1 2] by (simp add: afterImage_def Let_def)
qed

lemma same_tasks_settleElapsed: "same_tasks w (settleElapsed i w)"
proof (cases "i < length (tasks w) \<and> t_stage (tasks w ! i) = AwaitSettle")
  case True
  have 1: "same_tasks w (updTask i (\<lambda>t. t\<lparr>t_stage := Finished\<rparr>) w)"
    by (rule same_tasks_updStage) simp
  show ?thesis
    using True 1 same_tasks_trans [OF 1 same_tasks_setState]
    by (simp add: settleElapsed_def Let_def)
next
  case False
  then show ?thesis by (auto simp: settleElapsed_def same_tasks_refl)
qed

lemma same_tasks_imageResolved: "same_tasks w (imageResolved i w)"
  by (auto simp: imageResolved_def same_tasks_refl intro: same_tasks_afterImage)

lemma same_tasks_ttsResolved: "same_tasks w (ttsResolved i response w)"
proof (cases "i < length (tasks w)")
  case False
  then show ?thesis by (simp add: ttsResolved_def same_tasks_refl)
next
  case True
  show ?thesis
  proof (cases "t_stage (tasks w ! i)")
    case (AwaitTTS c)
    show ?thesis
    proof (cases c)
      case (Settled a)
      then show ?thesis
        using True AwaitTTS same_tasks_applyAudio [of i w a] by (simp add: ttsResolved_def)
    next
      case InFlight
      obtain a st where e: "tts_end (t_text (tasks w ! i)) response (tts w) = (a, st)"
        by (cases "tts_end (t_text (tasks w ! i)) response (tts w)")
      have 1: "same_tasks w (w\<lparr>tts := st\<rparr>)" by (simp add: same_tasksI)
      have 2: "same_tasks (w\<lparr>tts := st\<rparr>) (applyAudio i a (w\<lparr>tts := st\<rparr>))"
        using AwaitTTS by (intro same_tasks_applyAudio) simp
      show ?thesis
        using True AwaitTTS InFlight e same_tasks_trans [OF 1 2] by (simp add: ttsResolved_def)
    qed
  qed (simp_all add: ttsResolved_def True same_tasks_refl)
qed


lemma handleNextStep_frame:
  "rendered (handleNextStep r w) = rendered w" "tasks (handleNextStep r w) = tasks w"
  "cleanupPrepare (handleNextStep r w) = cleanupPrepare w"
  by (simp_all add: handleNextStep_def Let_def prim split: option.split prod.split)

lemma graceElapsed_frame:
  "rendered (graceElapsed r w) = rendered w" "tasks (graceElapsed r w) = tasks w"
  "cleanupPrepare (graceElapsed r w) = cleanupPrepare w"
  by (simp_all add: graceElapsed_def handleNextStep_frame)

lemma prefetchElapsed_frame:
  "rendered (prefetchElapsed t w) = rendered w" "tasks (prefetchElapsed t w) = tasks w"
  "cleanupPrepare (prefetchElapsed t w) = cleanupPrepare w" "cur (prefetchElapsed t w) = cur w"
  by (simp_all add: prefetchElapsed_def split: prod.split tts_call.split)

lemma foldl_startSource_frame:
  "rendered (foldl (\<lambda>v (d, r). startSource d r v) w xs) = rendered w"
  "tasks (foldl (\<lambda>v (d, r). startSource d r v) w xs) = tasks w"
  "cleanupPrepare (foldl (\<lambda>v (d, r). startSource d r v) w xs) = cleanupPrepare w"
  "cur (foldl (\<lambda>v (d, r). startSource d r v) w xs) = cur w"
  by (induction xs arbitrary: w; simp add: startSource_frame split: prod.split)+

lemma same_tasks_runTimer: "same_tasks w (runTimer k w)"
  by (cases k)
     (simp_all add: runTimer_def same_tasks_settleElapsed same_tasksI handleEnded_frame
        graceElapsed_frame prefetchElapsed_frame)

lemma same_tasks_timerFires: "same_tasks w (timerFires w)"
proof (cases "timers w = []")
  case True
  then show ?thesis by (simp add: timerFires_def same_tasks_refl)
next
  case False
  let ?k = "earliest (timers w)"
  let ?w1 = "w\<lparr>timers := dropAt ?k (timers w), now := max (now w) (due (timers w ! ?k))\<rparr>"
  have 1: "same_tasks w ?w1" by (simp add: same_tasksI)
  have 2: "same_tasks ?w1 (runTimer (kind (timers w ! ?k)) ?w1)" by (rule same_tasks_runTimer)
  show ?thesis
    using False same_tasks_trans [OF 1 2] by (simp add: timerFires_def Let_def)
qed

lemma same_tasks_handle: "same_tasks w (handle e w)"
proof (cases e)
  case (ImageResolved i)
  then show ?thesis by (simp add: handle_def same_tasks_imageResolved)
next
  case (TtsResolved i response)
  then show ?thesis by (simp add: handle_def same_tasks_ttsResolved)
next
  case TimerFires
  then show ?thesis by (simp add: handle_def same_tasks_timerFires)
next
  case ContextResumed
  then show ?thesis
    by (simp add: handle_def contextResumed_def same_tasks_refl same_tasksI foldl_startSource_frame)
next
  case ToggleLiveSession
  then show ?thesis
    by (simp add: handle_def toggleLiveSession_def same_tasksI stopAudio_frame prim)
qed (simp_all add: handle_def same_tasksI same_tasks_refl prim setLessonPlan_def
       prefetchAnswered_def sourceEnds_def utteranceEnds_def handleEnded_frame
       split: option.split prod.split)


lemma stepOf_None_iff: "stepOf r = None \<longleftrightarrow> (\<forall>pid k. stepId r \<noteq> StepObj pid k)"
  by (auto simp: stepOf_def stepId_def split: option.split prod.split)

lemma deps_prepares:
  assumes "depsPrepare l = depsPrepare r"
  shows "prepares l = prepares r" and "startedFrom l t = startedFrom r t"
proof -
  from assms have e: "isPreparing l = isPreparing r" "stepId l = stepId r" "currentText l = currentText r"
    "isMuted l = isMuted r" "isLiveSession l = isLiveSession r"
    by (simp_all add: depsPrepare_def)
  have "(stepOf l = None) = (stepOf r = None)" by (simp add: stepOf_None_iff e)
  then show p: "prepares l = prepares r" by (simp add: prepares_def e)
  show "startedFrom l t = startedFrom r t" by (simp add: startedFrom_def p e)
qed

lemma effectPrepare_skip: "\<not> prepares r \<Longrightarrow> effectPrepare r w = w"
  by (auto simp: effectPrepare_def prepares_def split: option.split)

lemma applyAudio_tasks:
  "tasks (applyAudio i a w) = (tasks w)[i := (tasks w ! i)\<lparr>t_stage := (if isCancelled (tasks w ! i) then Finished else AwaitSettle)\<rparr>]"
  "cleanupPrepare (applyAudio i a w) = cleanupPrepare w"
  by (simp_all add: applyAudio_def prim)

lemma afterImage_tasks:
  "\<exists>s. tasks (afterImage i w) = (tasks w)[i := (tasks w ! i)\<lparr>t_stage := s\<rparr>]"
  "cleanupPrepare (afterImage i w) = cleanupPrepare w"
  by (auto simp: afterImage_def Let_def applyAudio_tasks prim split: prod.split)

lemma startPrepare_tasks:
  "\<exists>s. tasks (startPrepare r step w) =
        tasks w @ [\<lparr>t_step = stepId r, t_imageUrl = imageUrl step, t_is3DMode = is3DMode r,
                    t_isMuted = isMuted r, t_text = currentText r, isCancelled = False,
                    t_stage = s\<rparr>]"
  "cleanupPrepare (startPrepare r step w) = Some (length (tasks w))"
proof -
  let ?t = "\<lparr>t_step = stepId r, t_imageUrl = imageUrl step, t_is3DMode = is3DMode r,
             t_isMuted = isMuted r, t_text = currentText r, isCancelled = False,
             t_stage = AwaitImage\<rparr>"
  let ?w1 = "w\<lparr>tasks := tasks w @ [?t], cleanupPrepare := Some (length (tasks w))\<rparr>"
  from afterImage_tasks(1) [of "length (tasks w)" ?w1]
  obtain s where "tasks (afterImage (length (tasks w)) ?w1) = tasks w @ [?t\<lparr>t_stage := s\<rparr>]"
    by auto
  then show "\<exists>s. tasks (startPrepare r step w) =
        tasks w @ [\<lparr>t_step = stepId r, t_imageUrl = imageUrl step, t_is3DMode = is3DMode r,
                    t_isMuted = isMuted r, t_text = currentText r, isCancelled = False,
                    t_stage = s\<rparr>]"
    by (auto simp: startPrepare_def Let_def)
  show "cleanupPrepare (startPrepare r step w) = Some (length (tasks w))"
    by (simp add: startPrepare_def Let_def afterImage_tasks)
qed

lemma effectPrepare_start:
  assumes "prepares r"
  shows "\<exists>t. tasks (effectPrepare r w) = tasks w @ [t] \<and> startedFrom r t \<and> \<not> isCancelled t"
    and "cleanupPrepare (effectPrepare r w) = Some (length (tasks w))"
proof -
  from assms obtain step where st: "stepOf r = Some step" and p: "isPreparing r" "\<not> isLiveSession r"
    by (auto simp: prepares_def)
  then have e: "effectPrepare r w = startPrepare r step w" by (simp add: effectPrepare_def)
  from startPrepare_tasks(1) [of r step w] obtain s where
    "tasks (startPrepare r step w) =
        tasks w @ [\<lparr>t_step = stepId r, t_imageUrl = imageUrl step, t_is3DMode = is3DMode r,
                    t_isMuted = isMuted r, t_text = currentText r, isCancelled = False,
                    t_stage = s\<rparr>]" by blast
  then show "\<exists>t. tasks (effectPrepare r w) = tasks w @ [t] \<and> startedFrom r t \<and> \<not> isCancelled t"
    using assms by (simp add: e startedFrom_def)
  show "cleanupPrepare (effectPrepare r w) = Some (length (tasks w))"
    by (simp add: e startPrepare_tasks)
qed

text \<open>The tasks after the cleanup of the prepare effect.\<close>

lemma runCleanupPrepare_tasks:
  "cleanupPrepare (runCleanupPrepare w) = None"
  "length (tasks (runCleanupPrepare w)) = length (tasks w)"
  "j < length (tasks w) \<Longrightarrow> task_le (tasks w ! j) (tasks (runCleanupPrepare w) ! j)"
  "tasks_ok w \<Longrightarrow> j < length (tasks w) \<Longrightarrow> \<not> live (tasks (runCleanupPrepare w) ! j)"
proof -
  show "cleanupPrepare (runCleanupPrepare w) = None"
    by (simp add: runCleanupPrepare_def prim split: option.split)
  show "length (tasks (runCleanupPrepare w)) = length (tasks w)"
    by (simp add: runCleanupPrepare_def prim split: option.split)
  show "task_le (tasks w ! j) (tasks (runCleanupPrepare w) ! j)" if "j < length (tasks w)"
    using that
    by (auto simp: runCleanupPrepare_def prim nth_updated task_le_refl task_le_cancel split: option.split)
  show "\<not> live (tasks (runCleanupPrepare w) ! j)" if ok: "tasks_ok w" and j: "j < length (tasks w)"
  proof (cases "cleanupPrepare w")
    case None
    then have "\<not> live (tasks w ! j)" using tasks_ok_live [OF ok j] by auto
    then show ?thesis using None by (simp add: runCleanupPrepare_def)
  next
    case (Some i)
    show ?thesis
    proof (cases "j = i")
      case True
      then show ?thesis using Some j by (simp add: runCleanupPrepare_def prim nth_updated live_def)
    next
      case False
      then have "\<not> live (tasks w ! j)" using tasks_ok_live [OF ok j] Some by auto
      then show ?thesis using Some False j by (simp add: runCleanupPrepare_def prim nth_updated)
    qed
  qed
qed

lemma runCleanupPrepare_rendered_upd:
  "tasks (runCleanupPrepare (w\<lparr>rendered := x\<rparr>)) = tasks (runCleanupPrepare w)"
  "cleanupPrepare (runCleanupPrepare (w\<lparr>rendered := x\<rparr>)) = cleanupPrepare (runCleanupPrepare w)"
  by (simp_all add: runCleanupPrepare_def prim split: option.split)

text \<open>The tasks and the registered cleanup after a render, by whether the prepare effect
  was due.\<close>

lemma render_pass_due:
  assumes "changed depsPrepare (rendered w) (cur w)"
  shows "\<exists>v. tasks v = tasks (runCleanupPrepare w) \<and> cleanupPrepare v = None
            \<and> tasks (render_pass w) = tasks (effectPrepare (cur w) v)
            \<and> cleanupPrepare (render_pass w) = cleanupPrepare (effectPrepare (cur w) v)"
proof -
  let ?r = "cur w"
  let ?w0 = "w\<lparr>rendered := Some ?r\<rparr>"
  let ?w1 = "runCleanupPrepare ?w0"
  let ?w2 = "if changed depsPlayback (rendered w) ?r then runCleanupPlayback ?w1 else ?w1"
  let ?w2' = "if changed depsPrefetch (rendered w) ?r then runCleanupPrefetch ?w2 else ?w2"
  let ?v = "if changed depsIndex (rendered w) ?r then effectIndexChange ?r ?w2' else ?w2'"
  have 1: "tasks ?v = tasks (runCleanupPrepare w)"
    by (simp add: frames runCleanupPrepare_rendered_upd)
  have 2: "cleanupPrepare ?v = None"
    by (simp add: frames runCleanupPrepare_tasks)
  have 3: "tasks (render_pass w) = tasks (effectPrepare ?r ?v)"
    using assms by (simp add: render_pass_def Let_def frames)
  have 4: "cleanupPrepare (render_pass w) = cleanupPrepare (effectPrepare ?r ?v)"
    using assms by (simp add: render_pass_def Let_def frames)
  from 1 2 3 4 show ?thesis by blast
qed

lemma render_pass_not_due:
  assumes "\<not> changed depsPrepare (rendered w) (cur w)"
  shows "tasks (render_pass w) = tasks w" and "cleanupPrepare (render_pass w) = cleanupPrepare w"
  using assms by (simp_all add: render_pass_def Let_def frames)


lemma tasks_ok_render_pass:
  assumes ok: "tasks_ok w"
  shows "tasks_ok (render_pass w)"
proof (cases "changed depsPrepare (rendered w) (cur w)")
  case due: True
  from render_pass_due [OF due] obtain v where
    v: "tasks v = tasks (runCleanupPrepare w)" "cleanupPrepare v = None"
      "tasks (render_pass w) = tasks (effectPrepare (cur w) v)"
      "cleanupPrepare (render_pass w) = cleanupPrepare (effectPrepare (cur w) v)"
    by blast
  have len: "length (tasks v) = length (tasks w)" by (simp add: v(1) runCleanupPrepare_tasks)
  have dead: "\<not> live (tasks v ! j)" if "j < length (tasks w)" for j
    using runCleanupPrepare_tasks(4) [OF ok that] by (simp add: v(1))
  show ?thesis
  proof (cases "prepares (cur w)")
    case True
    from effectPrepare_start [OF True, of v] obtain t where
      t: "tasks (effectPrepare (cur w) v) = tasks v @ [t]" "startedFrom (cur w) t" "\<not> isCancelled t"
        "cleanupPrepare (effectPrepare (cur w) v) = Some (length (tasks v))"
      by blast
    show ?thesis
    proof (rule tasks_okI)
      fix i assume i: "i < length (tasks (render_pass w))" and l: "live (tasks (render_pass w) ! i)"
      have "i = length (tasks v)"
      proof (rule ccontr)
        assume "i \<noteq> length (tasks v)"
        with i have "i < length (tasks v)" by (simp add: v(3) t(1))
        then show False using l dead [of i] by (simp add: v(3) t(1) nth_append len)
      qed
      then show "cleanupPrepare (render_pass w) = Some i" by (simp add: v(4) t(4))
    next
      fix i assume "cleanupPrepare (render_pass w) = Some i"
      then have "i = length (tasks v)" by (simp add: v(4) t(4))
      then show "i < length (tasks (render_pass w)) \<and> \<not> isCancelled (tasks (render_pass w) ! i)
            \<and> (\<exists>l. rendered (render_pass w) = Some l \<and> startedFrom l (tasks (render_pass w) ! i))"
        using t(2,3) by (simp add: v(3) t(1) rendered_render_pass)
    next
      fix l assume "rendered (render_pass w) = Some l" "prepares l"
      show "cleanupPrepare (render_pass w) \<noteq> None" by (simp add: v(4) t(4))
    qed
  next
    case False
    then have e: "effectPrepare (cur w) v = v" by (rule effectPrepare_skip)
    show ?thesis
    proof (rule tasks_okI)
      fix i assume i: "i < length (tasks (render_pass w))" and l: "live (tasks (render_pass w) ! i)"
      from i have "i < length (tasks w)" by (simp add: v(3) e len)
      from dead [OF this] l have False by (simp add: v(3) e)
      then show "cleanupPrepare (render_pass w) = Some i" ..
    next
      fix i assume "cleanupPrepare (render_pass w) = Some i"
      then have False by (simp add: v(4) e v(2))
      then show "i < length (tasks (render_pass w)) \<and> \<not> isCancelled (tasks (render_pass w) ! i)
            \<and> (\<exists>l. rendered (render_pass w) = Some l \<and> startedFrom l (tasks (render_pass w) ! i))" ..
    next
      fix l assume "rendered (render_pass w) = Some l" and "prepares l"
      then have False using False by (simp add: rendered_render_pass)
      then show "cleanupPrepare (render_pass w) \<noteq> None" ..
    qed
  qed
next
  case same: False
  then obtain l0 where l0: "rendered w = Some l0" and d: "depsPrepare l0 = depsPrepare (cur w)"
    by (cases "rendered w") (auto simp: changed_def)
  note nd = render_pass_not_due [OF same]
  show ?thesis
  proof (rule tasks_okI)
    fix i assume "i < length (tasks (render_pass w))" "live (tasks (render_pass w) ! i)"
    then show "cleanupPrepare (render_pass w) = Some i"
      using tasks_ok_live [OF ok, of i] by (simp add: nd)
  next
    fix i assume "cleanupPrepare (render_pass w) = Some i"
    then have c: "cleanupPrepare w = Some i" by (simp add: nd)
    from tasks_ok_registered(3) [OF ok c] l0 have "startedFrom l0 (tasks w ! i)" by simp
    then have "startedFrom (cur w) (tasks w ! i)" by (simp add: deps_prepares(2) [OF d])
    then show "i < length (tasks (render_pass w)) \<and> \<not> isCancelled (tasks (render_pass w) ! i)
            \<and> (\<exists>l. rendered (render_pass w) = Some l \<and> startedFrom l (tasks (render_pass w) ! i))"
      using tasks_ok_registered(1,2) [OF ok c] by (simp add: nd rendered_render_pass)
  next
    fix l assume "rendered (render_pass w) = Some l" and p: "prepares l"
    then have "l = cur w" by (simp add: rendered_render_pass)
    with p have "prepares l0" by (simp add: deps_prepares(1) [OF d])
    from tasks_ok_prepares [OF ok l0 this] show "cleanupPrepare (render_pass w) \<noteq> None"
      by (simp add: nd)
  qed
qed

lemma tasks_grow_render_pass: "tasks_grow w (render_pass w)"
proof (cases "changed depsPrepare (rendered w) (cur w)")
  case True
  from render_pass_due [OF True] obtain v where
    v: "tasks v = tasks (runCleanupPrepare w)" "tasks (render_pass w) = tasks (effectPrepare (cur w) v)"
    by blast
  have len: "length (tasks v) = length (tasks w)" by (simp add: v(1) runCleanupPrepare_tasks)
  have "\<exists>ts. tasks (effectPrepare (cur w) v) = tasks v @ ts"
  proof (cases "prepares (cur w)")
    case True
    from effectPrepare_start(1) [OF True, of v] show ?thesis by blast
  next
    case False
    then show ?thesis by (simp add: effectPrepare_skip)
  qed
  then obtain ts where ts: "tasks (render_pass w) = tasks v @ ts" by (auto simp: v(2))
  show ?thesis
    unfolding tasks_grow_def
    using runCleanupPrepare_tasks(3) [of _ w]
    by (simp add: ts nth_append v(1) runCleanupPrepare_tasks(2))
next
  case False
  then show ?thesis by (simp add: tasks_grow_def render_pass_not_due task_le_refl)
qed

lemma settle_invariants: "tasks_ok w \<Longrightarrow> tasks_ok (settle n w)" "tasks_grow w (settle n w)"
proof -
  show "tasks_ok w \<Longrightarrow> tasks_ok (settle n w)"
    by (induction n arbitrary: w) (simp_all add: tasks_ok_render_pass)
  show "tasks_grow w (settle n w)"
  proof (induction n arbitrary: w)
    case 0
    show ?case by (simp add: tasks_grow_refl)
  next
    case (Suc n)
    show ?case
      using tasks_grow_trans [OF tasks_grow_render_pass Suc.IH] by (simp add: tasks_grow_refl)
  qed
qed

lemma fire_invariants: "tasks_ok w \<Longrightarrow> tasks_ok (fire w e)" "tasks_grow w (fire w e)"
proof -
  show "tasks_ok w \<Longrightarrow> tasks_ok (fire w e)"
    unfolding fire_def commit_def
    by (intro settle_invariants(1) tasks_ok_same [OF _ same_tasks_handle])
  show "tasks_grow w (fire w e)"
    unfolding fire_def commit_def
    by (rule tasks_grow_trans [OF same_tasks_grow [OF same_tasks_handle] settle_invariants(2)])
qed

lemma reachable_tasks_ok: "reachable w \<Longrightarrow> tasks_ok w"
proof (induction rule: reachable.induct)
  case (r_mounted c synth dec)
  show ?case
    unfolding mounted_def commit_def
    by (rule settle_invariants(1)) (simp add: tasks_ok_def)
next
  case (r_fire w e)
  then show ?case by (simp add: fire_invariants)
qed


subsection \<open>The live session\<close>














subsection \<open>Reachability of the example worlds\<close>

lemma reachable_run: "reachable w \<Longrightarrow> reachable (run w es)"
  unfolding run_def by (induction es arbitrary: w) (simp_all add: r_fire)

lemma reachable_page: "reachable page" "reachable pageSuspended"
  by (simp_all add: page_def pageSuspended_def r_mounted)






subsection \<open>Last index wins\<close>

lemma fire_unchanged:
  assumes "quiescent w" and "cur (handle e w) = cur w" and "rendered (handle e w) = rendered w"
  shows "fire w e = handle e w"
proof -
  have "quiescent (handle e w)" using assms by (simp add: quiescent_def)
  then show ?thesis by (simp add: fire_def commit_def settle_quiescent)
qed

lemma stepId_index:
  assumes "stepId r = stepId r'" and "stepOf r \<noteq> None"
  shows "currentStepIndex r = currentStepIndex r'"
  using assms
  by (auto simp: stepId_def stepOf_def inRange_def split: option.splits prod.splits if_splits)

lemma not_live_cases: "\<not> live t \<Longrightarrow> t_stage t \<noteq> Finished \<Longrightarrow> isCancelled t"
  by (simp add: live_def)

lemma stale_applyAudio:
  "isCancelled (tasks w ! i) \<Longrightarrow>
     cur (applyAudio i a w) = cur w \<and> rendered (applyAudio i a w) = rendered w"
  by (simp add: applyAudio_def prim)

lemma stale_imageResolved:
  assumes "\<not> live (tasks w ! i)"
  shows "cur (imageResolved i w) = cur w" and "rendered (imageResolved i w) = rendered w"
proof -
  have "cur (imageResolved i w) = cur w \<and> rendered (imageResolved i w) = rendered w"
  proof (cases "i < length (tasks w) \<and> t_stage (tasks w ! i) = AwaitImage")
    case True
    then have c: "isCancelled (tasks w ! i)" using assms by (simp add: live_def)
    show ?thesis
      using True stale_applyAudio [OF c, of None]
      by (simp add: imageResolved_def afterImage_def Let_def prim split: prod.split)
  next
    case False
    then show ?thesis by (auto simp: imageResolved_def)
  qed
  then show "cur (imageResolved i w) = cur w" and "rendered (imageResolved i w) = rendered w"
    by simp_all
qed

lemma stale_ttsResolved:
  assumes "\<not> live (tasks w ! i)"
  shows "cur (ttsResolved i response w) = cur w"
    and "rendered (ttsResolved i response w) = rendered w"
proof -
  have a: "cur (applyAudio i a (w\<lparr>tts := x\<rparr>)) = cur w
           \<and> rendered (applyAudio i a (w\<lparr>tts := x\<rparr>)) = rendered w"
    if "t_stage (tasks w ! i) \<noteq> Finished" for a x
  proof -
    have "isCancelled (tasks (w\<lparr>tts := x\<rparr>) ! i)" using assms that by (simp add: live_def)
    from stale_applyAudio [OF this, of a] show ?thesis by simp
  qed
  have b: "cur (applyAudio i a w) = cur w \<and> rendered (applyAudio i a w) = rendered w"
    if "t_stage (tasks w ! i) \<noteq> Finished" for a
    using a [OF that, of a "tts w"] by simp
  have "cur (ttsResolved i response w) = cur w \<and> rendered (ttsResolved i response w) = rendered w"
    by (cases "t_stage (tasks w ! i)")
       (auto simp: ttsResolved_def a b split: tts_call.split prod.split)
  then show "cur (ttsResolved i response w) = cur w"
    and "rendered (ttsResolved i response w) = rendered w"
    by simp_all
qed

lemma stale_settleElapsed:
  assumes "\<not> live (tasks w ! i)"
  shows "cur (settleElapsed i w) = cur w" and "rendered (settleElapsed i w) = rendered w"
  using assms by (auto simp: settleElapsed_def Let_def live_def prim)

lemma stale_timerFires:
  assumes "\<not> live (tasks w ! i)" and "timers w \<noteq> []"
    and "kind (timers w ! earliest (timers w)) = SettleTimer i"
  shows "cur (timerFires w) = cur w" and "rendered (timerFires w) = rendered w"
proof -
  let ?w = "w\<lparr>timers := dropAt (earliest (timers w)) (timers w),
              now := max (now w) (due (timers w ! earliest (timers w)))\<rparr>"
  have t: "timerFires w = settleElapsed i ?w"
    using assms(2,3) by (simp add: timerFires_def Let_def runTimer_def)
  have "\<not> live (tasks ?w ! i)" using assms(1) by simp
  from stale_settleElapsed [OF this]
  show "cur (timerFires w) = cur w" and "rendered (timerFires w) = rendered w"
    by (simp_all add: t)
qed

lemma live_current:
  assumes "tasks_ok w" and "quiescent w" and "i < length (tasks w)" and "live (tasks w ! i)"
  shows "cleanupPrepare w = Some i" and "startedFrom (cur w) (tasks w ! i)"
proof -
  show c: "cleanupPrepare w = Some i" using assms(1,3,4) by (rule tasks_ok_live)
  from tasks_ok_registered(3) [OF assms(1) c]
  show "startedFrom (cur w) (tasks w ! i)" using assms(2) by (auto simp: quiescent_def)
qed

lemma stays_stale:
  assumes "i < length (tasks w)" and "\<not> live (tasks w ! i)"
  shows "\<not> live (tasks (fire w e) ! i)"
  using fire_invariants(2) [of w e] assms by (auto simp: tasks_grow_def task_le_def)

lemma live_after:
  assumes "reachable w" and "i < length (tasks w)" and "live (tasks (fire w e) ! i)"
  shows "t_step (tasks w ! i) = stepId (cur (fire w e))" and "stepOf (cur (fire w e)) \<noteq> None"
proof -
  have r: "reachable (fire w e)" using assms(1) by (rule r_fire)
  have g: "tasks_grow w (fire w e)" by (rule fire_invariants(2))
  then have l: "i < length (tasks (fire w e))" using assms(2) by (simp add: tasks_grow_def)
  have s: "startedFrom (cur (fire w e)) (tasks (fire w e) ! i)"
    using reachable_tasks_ok [OF r] reachable_quiescent [OF r] l assms(3) by (rule live_current(2))
  have "t_step (tasks (fire w e) ! i) = t_step (tasks w ! i)"
    using g assms(2) by (simp add: tasks_grow_def task_le_def)
  then show "t_step (tasks w ! i) = stepId (cur (fire w e))" using s by (simp add: startedFrom_def)
  show "stepOf (cur (fire w e)) \<noteq> None" using s by (simp add: startedFrom_def prepares_def)
qed

text \<open>
  Claim C1 (last index wins). In every state the player can reach, a preparation task
  that can still write to the sequencer state is the one the prepare effect has registered,
  it is the only such task, and it was started for the step at the current index. An event
  that changes the step index leaves no earlier task able to write: the task for the prior
  step is cancelled in the same commit. A task that cannot write any more never can again,
  and its completions are no-ops on the React state: the end of its image wait, the answer
  of the synthesis service, and its settle timer leave \<open>cur\<close> as it is, so neither the
  ready audio nor the preparing flag is touched.
\<close>

theorem last_index_wins:
  assumes "reachable w" and "i < length (tasks w)"
  shows "(live (tasks w ! i) \<longrightarrow>
            cleanupPrepare w = Some i
            \<and> t_step (tasks w ! i) = stepId (cur w) \<and> stepOf (cur w) \<noteq> None
            \<and> (\<forall>j < length (tasks w). live (tasks w ! j) \<longrightarrow> j = i))
       \<and> (currentStepIndex (cur (fire w e)) \<noteq> currentStepIndex (cur w) \<longrightarrow>
            \<not> live (tasks (fire w e) ! i))
       \<and> (\<not> live (tasks w ! i) \<longrightarrow>
            \<not> live (tasks (fire w e) ! i)
            \<and> cur (fire w (ImageResolved i)) = cur w
            \<and> cur (fire w (TtsResolved i response)) = cur w
            \<and> (timers w \<noteq> [] \<and> kind (timers w ! earliest (timers w)) = SettleTimer i \<longrightarrow>
                 cur (fire w TimerFires) = cur w))"
proof (intro conjI impI)
  note ok = reachable_tasks_ok [OF assms(1)] and q = reachable_quiescent [OF assms(1)]
  {
    assume l: "live (tasks w ! i)"
    note c = live_current [OF ok q assms(2) l]
    show "cleanupPrepare w = Some i" by (rule c(1))
    show "t_step (tasks w ! i) = stepId (cur w)" using c(2) by (simp add: startedFrom_def)
    show "stepOf (cur w) \<noteq> None" using c(2) by (simp add: startedFrom_def prepares_def)
    show "\<forall>j < length (tasks w). live (tasks w ! j) \<longrightarrow> j = i"
      using tasks_ok_live [OF ok] c(1) by auto
  }
  {
    assume d: "currentStepIndex (cur (fire w e)) \<noteq> currentStepIndex (cur w)"
    show "\<not> live (tasks (fire w e) ! i)"
    proof
      assume l': "live (tasks (fire w e) ! i)"
      have l: "live (tasks w ! i)" using stays_stale [OF assms(2), of e] l' by blast
      have "startedFrom (cur w) (tasks w ! i)" using ok q assms(2) l by (rule live_current(2))
      then have "t_step (tasks w ! i) = stepId (cur w)" by (simp add: startedFrom_def)
      with live_after [OF assms l'] have "stepId (cur (fire w e)) = stepId (cur w)" by simp
      from stepId_index [OF this live_after(2) [OF assms l']] d show False by simp
    qed
  }
  {
    assume n: "\<not> live (tasks w ! i)"
    show "\<not> live (tasks (fire w e) ! i)" using assms(2) n by (rule stays_stale)
    have "fire w (ImageResolved i) = handle (ImageResolved i) w"
      using q by (rule fire_unchanged) (simp_all add: handle_def stale_imageResolved [OF n])
    then show "cur (fire w (ImageResolved i)) = cur w"
      by (simp add: handle_def stale_imageResolved [OF n])
    have "fire w (TtsResolved i response) = handle (TtsResolved i response) w"
      using q by (rule fire_unchanged) (simp_all add: handle_def stale_ttsResolved [OF n])
    then show "cur (fire w (TtsResolved i response)) = cur w"
      by (simp add: handle_def stale_ttsResolved [OF n])
    {
      assume t: "timers w \<noteq> [] \<and> kind (timers w ! earliest (timers w)) = SettleTimer i"
      then have t1: "timers w \<noteq> []"
        and t2: "kind (timers w ! earliest (timers w)) = SettleTimer i" by simp_all
      have "fire w TimerFires = handle TimerFires w"
        using q by (rule fire_unchanged) (simp_all add: handle_def stale_timerFires [OF n t1 t2])
      then show "cur (fire w TimerFires) = cur w"
        by (simp add: handle_def stale_timerFires [OF n t1 t2])
    }
  }
qed

theorem last_index_wins_witness:
  "live (tasks jumpedWorld ! 1) \<and> \<not> live (tasks jumpedWorld ! 0)
   \<and> length (tasks jumpedWorld) = 2
   \<and> currentStepIndex (cur jumpedWorld) = 1
   \<and> currentStepIndex (cur (fire jumpedWorld (FollowUpAnswered 1 (jumpTo 2)))) = 2
   \<and> cleanupPrepare jumpedWorld = Some 1
   \<and> t_step (tasks jumpedWorld ! 1) = stepId (cur jumpedWorld)
   \<and> \<not> live (tasks (fire jumpedWorld (FollowUpAnswered 1 (jumpTo 2))) ! 1)
   \<and> t_stage (tasks jumpedWorld ! 0) = AwaitTTS InFlight
   \<and> cur (fire jumpedWorld (TtsResolved 0 (Some ''AAAA''))) = cur jumpedWorld
   \<and> cur (fire jumpedWorld (ImageResolved 0)) = cur jumpedWorld
   \<and> \<not> live (tasks mutedJumpedWorld ! 0)
   \<and> kind (timers mutedJumpedWorld ! earliest (timers mutedJumpedWorld)) = SettleTimer 0
   \<and> cur (fire mutedJumpedWorld TimerFires) = cur mutedJumpedWorld"
proof -
  have r: "reachable jumpedWorld" "reachable mutedJumpedWorld"
    unfolding jumpedWorld_def mutedJumpedWorld_def
    by (rule reachable_run [OF reachable_page(1)])+
  have a: "live (tasks jumpedWorld ! 1)" "\<not> live (tasks jumpedWorld ! 0)"
    "length (tasks jumpedWorld) = 2" "currentStepIndex (cur jumpedWorld) = 1"
    "currentStepIndex (cur (fire jumpedWorld (FollowUpAnswered 1 (jumpTo 2)))) = 2"
    "t_stage (tasks jumpedWorld ! 0) = AwaitTTS InFlight"
    by code_simp+
  have b: "\<not> live (tasks mutedJumpedWorld ! 0)" "length (tasks mutedJumpedWorld) = 2"
    "timers mutedJumpedWorld \<noteq> []"
    "kind (timers mutedJumpedWorld ! earliest (timers mutedJumpedWorld)) = SettleTimer 0"
    by code_simp+
  show ?thesis
    using a b
      last_index_wins [OF r(1), of 1 "FollowUpAnswered 1 (jumpTo 2)" "Some ''AAAA''"]
      last_index_wins [OF r(1), of 0 "FollowUpAnswered 1 (jumpTo 2)" "Some ''AAAA''"]
      last_index_wins [OF r(2), of 0 "FollowUpAnswered 1 (jumpTo 2)" "Some ''AAAA''"]
    by simp
qed


subsection \<open>The mute flag\<close>












subsection \<open>The muted lesson\<close>










subsection \<open>Runs in which the player leaves the specified behaviour\<close>


text \<open>
  Claim C3 does not hold of the code. The lesson is muted and step 0 is in its timed
  silence when the user pauses at 1500 ms. The cleanup calls \<^verbatim>\<open>stopAudio\<close>, which does
  not clear the timer. At 3500 ms the timer calls \<^verbatim>\<open>handleEnded\<close> of the superseded
  playback, and after the grace delay its guard reads the values of the render that made
  it, in which the intent is still \<open>PLAYING\<close>: the player moves to step 1 while paused.
\<close>

theorem stale_completion_advances:
  "map observe (trace page
      [ToggleMute, LessonGenerated plan3, TimerFires, Elapse 1000, Pause, TimerFires, TimerFires, TimerFires])
   = [(0, 0, IDLE, False, []),
      (0, 0, IDLE, False, []),
      (0, 0, PLAYING, True, []),
      (500, 0, PLAYING, False, [3000]),
      (1500, 0, PLAYING, False, [2000]),
      (1500, 0, PAUSED, False, [2000]),
      (3500, 0, PAUSED, False, []),
      (4000, 0, PAUSED, False, []),
      (4500, 1, PAUSED, True, [])]"
  by code_simp

text \<open>
  Claim C9 does not hold of the code. A follow-up question is asked in a lesson of five
  steps; while the answer is awaited the user opens a saved lesson of two steps; the answer
  names step 4. \<^verbatim>\<open>handleSendMessage\<close> compares the target with the length of the plan of
  the render in which the question was sent, and the index becomes 4 in a plan of two
  steps.
\<close>

theorem follow_up_after_switch:
  "observePlan (run page
      [LessonGenerated plan5, FollowUpAsked, SelectSession plan2 0, FollowUpAnswered 0 (jumpTo 4)])
   = (4, Some 2)"
  by code_simp


end
